theory Spec2Isabelle
  imports Complex_Main
begin

section \<open>Numbers\<close>

text \<open>
  Every number of the program is a JavaScript \<^verbatim>\<open>number\<close>. The model takes the finite
  values as reals with exact arithmetic (no rounding, no overflow to an infinity, no
  signed zero) and keeps one extra value, \<open>NaN\<close>, which every arithmetic operation
  propagates and on which every comparison is false. \<^verbatim>\<open>undefined\<close>, the result of
  reading an array past its end, is represented by \<open>NaN\<close> as well: in the program it only
  ever meets \<^verbatim>\<open><\<close>, \<^verbatim>\<open>===\<close> against a number, and arithmetic, where it behaves as
  \<open>NaN\<close> does.
\<close>

datatype jsnum = Fin real | NaN

instantiation jsnum :: "{plus, minus, times, inverse, uminus, ord}"
begin

fun plus_jsnum :: "jsnum \<Rightarrow> jsnum \<Rightarrow> jsnum" where
  "plus_jsnum (Fin a) (Fin b) = Fin (a + b)"
| "plus_jsnum _ _ = NaN"

fun minus_jsnum :: "jsnum \<Rightarrow> jsnum \<Rightarrow> jsnum" where
  "minus_jsnum (Fin a) (Fin b) = Fin (a - b)"
| "minus_jsnum _ _ = NaN"

fun times_jsnum :: "jsnum \<Rightarrow> jsnum \<Rightarrow> jsnum" where
  "times_jsnum (Fin a) (Fin b) = Fin (a * b)"
| "times_jsnum _ _ = NaN"

text \<open>
  A division by zero gives an infinity (or \<open>NaN\<close> for \<open>0/0\<close>) in JavaScript; infinities
  are outside this model, so the quotient is \<open>NaN\<close> there. The program divides by the
  computed distance only, which is never zero (lemma \<open>distance_pos\<close> below).
\<close>

fun divide_jsnum :: "jsnum \<Rightarrow> jsnum \<Rightarrow> jsnum" where
  "divide_jsnum (Fin a) (Fin b) = (if b = 0 then NaN else Fin (a / b))"
| "divide_jsnum _ _ = NaN"

fun inverse_jsnum :: "jsnum \<Rightarrow> jsnum" where
  "inverse_jsnum (Fin a) = (if a = 0 then NaN else Fin (inverse a))"
| "inverse_jsnum NaN = NaN"

fun uminus_jsnum :: "jsnum \<Rightarrow> jsnum" where
  "uminus_jsnum (Fin a) = Fin (- a)"
| "uminus_jsnum NaN = NaN"

fun less_jsnum :: "jsnum \<Rightarrow> jsnum \<Rightarrow> bool" where
  "less_jsnum (Fin a) (Fin b) = (a < b)"
| "less_jsnum _ _ = False"

fun less_eq_jsnum :: "jsnum \<Rightarrow> jsnum \<Rightarrow> bool" where
  "less_eq_jsnum (Fin a) (Fin b) = (a \<le> b)"
| "less_eq_jsnum _ _ = False"

instance ..

end

text \<open>\<^verbatim>\<open>v ** .5\<close>: the square root, \<open>NaN\<close> on a negative number.\<close>

fun jsqrt :: "jsnum \<Rightarrow> jsnum" where
  "jsqrt (Fin a) = (if a < 0 then NaN else Fin (sqrt a))"
| "jsqrt NaN = NaN"

text \<open>\<^verbatim>\<open>Number.EPSILON\<close> is \<open>2\<^sup>-\<^sup>5\<^sup>2\<close>.\<close>

definition EPSILON :: jsnum where
  "EPSILON = Fin (1 / 2 ^ 52)"

text \<open>
  \<^verbatim>\<open>xs[i]\<close> on an array of numbers: the element, or \<^verbatim>\<open>undefined\<close> past the end.
\<close>

definition jsget :: "jsnum list \<Rightarrow> nat \<Rightarrow> jsnum" where
  "jsget xs i = (if i < length xs then xs ! i else NaN)"

text \<open>
  \<^verbatim>\<open>xs.splice(i, 1)\<close> for an integer \<open>i\<close>: a negative start counts from the end (and
  stops at the front), a start past the end removes nothing.
\<close>

definition splice1 :: "int \<Rightarrow> 'a list \<Rightarrow> 'a list" where
  "splice1 i xs =
     (let len = int (length xs);
          start = (if i < 0 then max (len + i) 0 else min i len)
      in take (nat start) xs @ drop (nat start + 1) xs)"

section \<open>Data model\<close>

record Particle =
  x :: jsnum
  y :: jsnum
  vx :: jsnum
  vy :: jsnum
  ax :: jsnum
  ay :: jsnum

record Group =
  items :: "Particle list"
  count :: jsnum
  forces :: "jsnum list"
  ranges :: "jsnum list"
  hsl :: "jsnum \<times> jsnum \<times> jsnum"
  colorStr :: string
  particleRadius :: jsnum
  isRunning :: bool

text \<open>
  The state of the class \<^verbatim>\<open>ParticleGroup\<close> that the simulation and the registry use.
  The class's own \<^verbatim>\<open>isRunning\<close> and \<^verbatim>\<open>dt\<close> are \<open>allRunning\<close> and \<open>dtScale\<close> here,
  since a group has an \<open>isRunning\<close> and the step has a \<open>dt\<close> of their own. The sprite
  images, the statistics and the animation-frame stream belong to the rendering and are
  left out: no operation below reads them.
\<close>

record ParticleGroup =
  groups :: "Group list"
  allRunning :: bool
  dampening :: jsnum
  dtScale :: jsnum

section \<open>Force kernel and boundary constraint\<close>

definition interactParticle ::
  "Particle \<Rightarrow> Particle \<Rightarrow> jsnum \<Rightarrow> jsnum \<Rightarrow> jsnum \<Rightarrow> Particle" where
  "interactParticle a b f maxDistance radius =
     (let dx = x a - x b;
          dy = y a - y b;
          dSq = (dx * dx + dy * dy) + EPSILON;
          distance = jsqrt dSq + EPSILON
      in if distance < radius then
           (let F = Fin (- 6) / distance
            in a\<lparr>ax := ax a - F * dx, ay := ay a - F * dy\<rparr>)
         else if distance < maxDistance then
           (let F = f / distance
            in a\<lparr>ax := ax a - F * dx, ay := ay a - F * dy\<rparr>)
         else a)"

definition constraint :: "Particle \<Rightarrow> jsnum \<Rightarrow> jsnum \<Rightarrow> jsnum \<Rightarrow> Particle" where
  "constraint particle r width height =
     (let p1 = (if x particle < r then particle\<lparr>x := r, vx := vx particle * Fin (- 1)\<rparr>
                else if width - r < x particle
                  then particle\<lparr>x := width - r, vx := vx particle * Fin (- 1)\<rparr>
                else particle)
      in if y p1 < r then p1\<lparr>y := r, vy := vy p1 * Fin (- 1)\<rparr>
         else if height - r < y p1 then p1\<lparr>y := height - r, vy := vy p1 * Fin (- 1)\<rparr>
         else p1)"

text \<open>The distance the kernel computes for a pair, and the displacement it scales.\<close>

definition distance_of :: "Particle \<Rightarrow> Particle \<Rightarrow> jsnum" where
  "distance_of a b =
     jsqrt (((x a - x b) * (x a - x b) + (y a - y b) * (y a - y b)) + EPSILON) + EPSILON"

section \<open>Group interaction and simulation step\<close>

text \<open>
  The groups and their particles are objects that the loops mutate in place, and
  \<^verbatim>\<open>step\<close> passes the same group as target and as source when \<open>i = j\<close>. The model
  keeps the registry's array as the state and addresses a group by its index and a
  particle by its index in the group's \<open>items\<close>. In the inner loop the source particle
  \<open>b\<close> is read from that state, except when it is the very object \<open>a\<close> that the loop is
  updating (same group, same index): then it is the current \<open>a\<close>. Different positions
  of the registry hold different objects, and every index is within bounds where the
  step uses it.

  \<open>interactGroup_particle\<close> is the body of the outer loop of \<^verbatim>\<open>interactGroup\<close> at index
  \<open>k\<close>; \<open>i1\<close> and \<open>i2\<close> are the indices of \<^verbatim>\<open>group1\<close> and \<^verbatim>\<open>group2\<close>.
\<close>

definition interactGroup_particle ::
  "nat \<Rightarrow> nat \<Rightarrow> jsnum \<Rightarrow> jsnum \<Rightarrow> jsnum \<Rightarrow> jsnum \<Rightarrow> jsnum \<Rightarrow> jsnum \<Rightarrow> Group list \<Rightarrow> nat
     \<Rightarrow> Group list" where
  "interactGroup_particle i1 i2 f maxDistance dt width height damp gs k =
     (let group1 = gs ! i1;
          a0 = items group1 ! k;
          a1 = a0\<lparr>ax := Fin 0, ay := Fin 0\<rparr>;
          a2 = foldl (\<lambda>a j. interactParticle a
                               (if i1 = i2 \<and> j = k then a else items (gs ! i2) ! j)
                               f maxDistance (particleRadius group1))
                 a1 [0..<length (items (gs ! i2))];
          a3 = a2\<lparr>vx := vx a2 + dt * ax a2, vy := vy a2 + dt * ay a2\<rparr>;
          a4 = a3\<lparr>vx := vx a3 * damp, vy := vy a3 * damp\<rparr>;
          a5 = a4\<lparr>x := x a4 + vx a4, y := y a4 + vy a4\<rparr>;
          a6 = constraint a5 (particleRadius group1) width height
      in gs[i1 := group1\<lparr>items := (items group1)[k := a6]\<rparr>])"

definition interactGroup ::
  "nat \<Rightarrow> nat \<Rightarrow> jsnum \<Rightarrow> jsnum \<Rightarrow> jsnum \<Rightarrow> jsnum \<Rightarrow> jsnum \<Rightarrow> jsnum \<Rightarrow> Group list
     \<Rightarrow> Group list" where
  "interactGroup i1 i2 f maxDistance dt width height damp gs =
     foldl (interactGroup_particle i1 i2 f maxDistance dt width height damp) gs
       [0..<length (items (gs ! i1))]"

text \<open>
  \<^verbatim>\<open>step(groups, dt)\<close>, with the window's \<^verbatim>\<open>innerWidth\<close> and \<^verbatim>\<open>innerHeight\<close> as
  arguments. \<open>step_pair\<close> is the body of the inner loop, \<open>step_target\<close> the body of the
  outer one.
\<close>

definition step_pair ::
  "ParticleGroup \<Rightarrow> jsnum \<Rightarrow> jsnum \<Rightarrow> jsnum \<Rightarrow> nat \<Rightarrow> Group list \<Rightarrow> nat \<Rightarrow> Group list" where
  "step_pair pg innerWidth innerHeight dt i gs j =
     (if jsget (forces (gs ! i)) j = Fin 0 then gs
      else interactGroup i j (jsget (forces (gs ! i)) j) (jsget (ranges (gs ! i)) j)
             dt innerWidth innerHeight (dampening pg) gs)"

definition step_target ::
  "ParticleGroup \<Rightarrow> jsnum \<Rightarrow> jsnum \<Rightarrow> jsnum \<Rightarrow> nat \<Rightarrow> Group list \<Rightarrow> nat \<Rightarrow> Group list" where
  "step_target pg innerWidth innerHeight dt len gs i =
     (if \<not> isRunning (gs ! i) then gs
      else foldl (step_pair pg innerWidth innerHeight dt i) gs [0..<len])"

definition step ::
  "ParticleGroup \<Rightarrow> jsnum \<Rightarrow> jsnum \<Rightarrow> Group list \<Rightarrow> jsnum \<Rightarrow> Group list" where
  "step pg innerWidth innerHeight gs dt =
     foldl (step_target pg innerWidth innerHeight dt (length gs)) gs [0..<length gs]"

text \<open>
  The calls of \<^verbatim>\<open>interactGroup\<close> that one step makes, in order: the pairs of a running
  target \<open>i\<close> and a source \<open>j\<close> whose force entry is not \<open>0\<close>.
\<close>

definition step_calls :: "Group list \<Rightarrow> (nat \<times> nat) list" where
  "step_calls gs =
     concat (map (\<lambda>i. if isRunning (gs ! i)
                        then map (Pair i)
                               (filter (\<lambda>j. jsget (forces (gs ! i)) j \<noteq> Fin 0) [0..<length gs])
                        else [])
               [0..<length gs])"

subsection \<open>Two variants the specification compares the step with\<close>

text \<open>
  The variant of the specification's zero-force property: it does not skip a pair whose
  force entry is \<open>0\<close> and runs the group interaction on it, with that \<open>f = 0\<close>.
\<close>

definition step_noskip_target ::
  "ParticleGroup \<Rightarrow> jsnum \<Rightarrow> jsnum \<Rightarrow> jsnum \<Rightarrow> nat \<Rightarrow> Group list \<Rightarrow> nat \<Rightarrow> Group list" where
  "step_noskip_target pg innerWidth innerHeight dt len gs i =
     (if \<not> isRunning (gs ! i) then gs
      else foldl (\<lambda>s j. interactGroup i j (jsget (forces (s ! i)) j) (jsget (ranges (s ! i)) j)
                          dt innerWidth innerHeight (dampening pg) s)
             gs [0..<len])"

definition step_noskip ::
  "ParticleGroup \<Rightarrow> jsnum \<Rightarrow> jsnum \<Rightarrow> Group list \<Rightarrow> jsnum \<Rightarrow> Group list" where
  "step_noskip pg innerWidth innerHeight gs dt =
     foldl (step_noskip_target pg innerWidth innerHeight dt (length gs)) gs [0..<length gs]"

text \<open>
  The variant of the specification's once-per-frame sentence: for a particle of a running
  target group the acceleration is reset once, the contributions of every source group
  with a non-zero force entry are accumulated, and then velocity and position are
  integrated and constrained once.
\<close>

definition once_particle ::
  "ParticleGroup \<Rightarrow> jsnum \<Rightarrow> jsnum \<Rightarrow> jsnum \<Rightarrow> nat \<Rightarrow> nat \<Rightarrow> Group list \<Rightarrow> nat \<Rightarrow> Group list" where
  "once_particle pg width height dt len i gs k =
     (let group1 = gs ! i;
          a0 = items group1 ! k;
          a1 = a0\<lparr>ax := Fin 0, ay := Fin 0\<rparr>;
          a2 = foldl (\<lambda>a j. if jsget (forces group1) j = Fin 0 then a
                             else foldl (\<lambda>a' m. interactParticle a'
                                             (if i = j \<and> m = k then a' else items (gs ! j) ! m)
                                             (jsget (forces group1) j) (jsget (ranges group1) j)
                                             (particleRadius group1))
                                    a [0..<length (items (gs ! j))])
                 a1 [0..<len];
          a3 = a2\<lparr>vx := vx a2 + dt * ax a2, vy := vy a2 + dt * ay a2\<rparr>;
          a4 = a3\<lparr>vx := vx a3 * dampening pg, vy := vy a3 * dampening pg\<rparr>;
          a5 = a4\<lparr>x := x a4 + vx a4, y := y a4 + vy a4\<rparr>;
          a6 = constraint a5 (particleRadius group1) width height
      in gs[i := group1\<lparr>items := (items group1)[k := a6]\<rparr>])"

definition step_once ::
  "ParticleGroup \<Rightarrow> jsnum \<Rightarrow> jsnum \<Rightarrow> Group list \<Rightarrow> jsnum \<Rightarrow> Group list" where
  "step_once pg innerWidth innerHeight gs dt =
     foldl (\<lambda>s i. if \<not> isRunning (s ! i) then s
                   else foldl (once_particle pg innerWidth innerHeight dt (length gs) i) s
                          [0..<length (items (s ! i))])
       gs [0..<length gs]"

section \<open>Group registry\<close>

datatype error = ParticleTooBig jsnum jsnum | RangeError

text \<open>
  The loop of \<^verbatim>\<open>addGroup\<close> over the indices of the groups already in the registry. It
  returns the error it throws, if any, with the array as the loop left it. The candidate
  \<open>grp\<close> (the source's \<^verbatim>\<open>group\<close>) is taken to be an object of its own, not one
  that is in the registry already.
\<close>

fun addGroup_loop :: "Group \<Rightarrow> nat list \<Rightarrow> Group list \<Rightarrow> error option \<times> Group list" where
  "addGroup_loop grp [] gs = (None, gs)"
| "addGroup_loop grp (i # rest) gs =
     (if jsget (ranges grp) i < particleRadius grp
      then (Some (ParticleTooBig (jsget (ranges grp) i) (particleRadius grp)), gs)
      else (let g = gs ! i
            in addGroup_loop grp rest
                 (gs[i := g\<lparr>forces := forces g @ [jsget (forces grp) i],
                             ranges := ranges g @ [jsget (ranges grp) i]\<rparr>])))"

text \<open>
  \<^verbatim>\<open>updateParticleCount\<close>. \<open>w\<close> and \<open>h\<close> are the canvas's width and height, and \<open>rand n\<close>
  is the value of the \<open>n\<close>-th call of \<^verbatim>\<open>Math.random()\<close>. Assigning to the \<^verbatim>\<open>length\<close> of
  an array throws a \<^verbatim>\<open>RangeError\<close> unless the value is a non-negative integer; the
  loop \<^verbatim>\<open>for (i = 0; i < d; i++)\<close> runs \<open>\<lceil>d\<rceil>\<close> times.
\<close>

definition newParticle :: "jsnum \<Rightarrow> jsnum \<Rightarrow> (nat \<Rightarrow> real) \<Rightarrow> nat \<Rightarrow> Particle" where
  "newParticle w h rand i =
     \<lparr>x = Fin (rand (2 * i)) * w, y = Fin (rand (2 * i + 1)) * h,
      vx = Fin 0, vy = Fin 0, ax = Fin 0, ay = Fin 0\<rparr>"

definition updateParticleCount ::
  "jsnum \<Rightarrow> jsnum \<Rightarrow> (nat \<Rightarrow> real) \<Rightarrow> Group \<Rightarrow> error + Group" where
  "updateParticleCount w h rand grp =
     (let d = count grp - Fin (real (length (items grp)))
      in if d = Fin 0 then Inr grp
         else if d < Fin 0 then
           (case Fin (real (length (items grp))) + d of
              Fin n \<Rightarrow>
                if 0 \<le> n \<and> n = of_int \<lfloor>n\<rfloor>
                then Inr (grp\<lparr>items := take (nat \<lfloor>n\<rfloor>) (items grp)\<rparr>)
                else Inl RangeError
            | NaN \<Rightarrow> Inl RangeError)
         else if Fin 0 < d then
           (case d of
              Fin r \<Rightarrow> Inr (grp\<lparr>items := items grp @ map (newParticle w h rand) [0..<nat \<lceil>r\<rceil>]\<rparr>)
            | NaN \<Rightarrow> Inr grp)
         else Inr grp)"

text \<open>
  \<^verbatim>\<open>addGroup\<close>: the value it returns or the error it throws, and the registry as it is
  then. The group pushed on the registry is the object that \<^verbatim>\<open>updateParticleCount\<close>
  fills afterwards. \<^verbatim>\<open>updateImages\<close> redraws the sprites and touches no group.
\<close>

definition addGroup ::
  "jsnum \<Rightarrow> jsnum \<Rightarrow> (nat \<Rightarrow> real) \<Rightarrow> ParticleGroup \<Rightarrow> Group \<Rightarrow> (error + Group) \<times> ParticleGroup" where
  "addGroup w h rand pg grp =
     (case addGroup_loop grp [0..<length (groups pg)] (groups pg) of
        (Some e, gs') \<Rightarrow> (Inl e, pg\<lparr>groups := gs'\<rparr>)
      | (None, gs') \<Rightarrow>
          (case updateParticleCount w h rand grp of
             Inl e \<Rightarrow> (Inl e, pg\<lparr>groups := gs' @ [grp]\<rparr>)
           | Inr grp' \<Rightarrow> (Inr grp', pg\<lparr>groups := gs' @ [grp']\<rparr>)))"

text \<open>
  \<^verbatim>\<open>removeGroup\<close>. Groups are compared by identity, which a value does not have: the
  argument \<open>i\<close> is the result of \<^verbatim>\<open>findIndex\<close>, the position of the group in the
  registry, or \<open>-1\<close> for a group that is not in it. The emptied particle list belongs to
  the group that leaves the registry.
\<close>

definition removeGroup :: "ParticleGroup \<Rightarrow> int \<Rightarrow> ParticleGroup" where
  "removeGroup pg i =
     pg\<lparr>groups := map (\<lambda>g. g\<lparr>ranges := splice1 i (ranges g), forces := splice1 i (forces g)\<rparr>)
                      (splice1 i (groups pg))\<rparr>"

text \<open>\<^verbatim>\<open>computationsPerFrame\<close>; the counter is a natural number.\<close>

definition computationsPerFrame :: "ParticleGroup \<Rightarrow> nat" where
  "computationsPerFrame pg =
     (let gs = groups pg; len = length gs
      in foldl (\<lambda>k i. foldl (\<lambda>k' j. if \<not> isRunning (gs ! i) \<or> jsget (forces (gs ! i)) j = Fin 0
                                      then k'
                                      else k' + length (items (gs ! i)) * length (items (gs ! j)))
                         k [0..<len])
           0 [0..<len])"

text \<open>
  The table-alignment invariant: every group's force table and range table have as many
  entries as the registry has groups.
\<close>

definition aligned :: "Group list \<Rightarrow> bool" where
  "aligned gs = list_all (\<lambda>g. length (forces g) = length gs \<and> length (ranges g) = length gs) gs"

section \<open>Concrete inputs\<close>

text \<open>
  Two particles three and four units apart along the axes, so about five units from each
  other, and three particles near the walls of a world.
\<close>

definition pair_a :: Particle where
  "pair_a = \<lparr>x = Fin 3, y = Fin 4, vx = Fin 0, vy = Fin 0, ax = Fin 0, ay = Fin 0\<rparr>"

definition pair_b :: Particle where
  "pair_b = \<lparr>x = Fin 0, y = Fin 0, vx = Fin 0, vy = Fin 0, ax = Fin 0, ay = Fin 0\<rparr>"

definition wall_p :: Particle where
  "wall_p = \<lparr>x = Fin 8, y = Fin 50, vx = Fin 1, vy = Fin 0, ax = Fin 0, ay = Fin 0\<rparr>"

definition wall_q :: Particle where
  "wall_q = \<lparr>x = Fin 3, y = Fin 97, vx = Fin (- 2), vy = Fin 1, ax = Fin 0, ay = Fin 0\<rparr>"

definition wall_s :: Particle where
  "wall_s = \<lparr>x = Fin 5, y = Fin 5, vx = Fin 2, vy = Fin 1, ax = Fin 0, ay = Fin 0\<rparr>"

text \<open>The Euclidean length of a vector, with the program's own arithmetic.\<close>

definition magnitude :: "jsnum \<Rightarrow> jsnum \<Rightarrow> jsnum" where
  "magnitude u v = jsqrt (u * u + v * v)"

text \<open>
  Registries of one, two and three groups without particles, whose tables are aligned,
  and three candidates for \<^verbatim>\<open>addGroup\<close>, all of radius 5: one whose range for itself
  (its last entry) is 1, one whose range for the second group of the registry is 1, and
  one whose ranges all exceed the radius.
\<close>

definition mk_group :: "Particle list \<Rightarrow> jsnum \<Rightarrow> jsnum list \<Rightarrow> jsnum list \<Rightarrow> jsnum \<Rightarrow> Group" where
  "mk_group ps c fs rs r =
     \<lparr>items = ps, count = c, forces = fs, ranges = rs, hsl = (Fin 0, Fin 70, Fin 60),
      colorStr = ''hsl(0, 70%, 60%)'', particleRadius = r, isRunning = True\<rparr>"

definition mk_registry :: "Group list \<Rightarrow> ParticleGroup" where
  "mk_registry gs = \<lparr>groups = gs, allRunning = True, dampening = Fin 1, dtScale = Fin (1 / 1000)\<rparr>"

definition registry_one :: ParticleGroup where
  "registry_one = mk_registry [mk_group [] (Fin 0) [Fin 1] [Fin 20] (Fin 5)]"

definition registry_two :: ParticleGroup where
  "registry_two = mk_registry [mk_group [] (Fin 0) [Fin 1, Fin 2] [Fin 20, Fin 21] (Fin 5),
                       mk_group [] (Fin 0) [Fin 3, Fin 4] [Fin 22, Fin 23] (Fin 5)]"

definition registry_three :: ParticleGroup where
  "registry_three = mk_registry [mk_group [] (Fin 0) [Fin 1, Fin 2, Fin 3] [Fin 11, Fin 12, Fin 13] (Fin 5),
                       mk_group [] (Fin 0) [Fin 4, Fin 5, Fin 6] [Fin 21, Fin 22, Fin 23] (Fin 5),
                       mk_group [] (Fin 0) [Fin 7, Fin 8, Fin 9] [Fin 31, Fin 32, Fin 33] (Fin 5)]"

definition candidate_small_self_range :: Group where
  "candidate_small_self_range = mk_group [] (Fin 0) [Fin 1, Fin 1] [Fin 10, Fin 1] (Fin 5)"

definition candidate_rejected :: Group where
  "candidate_rejected = mk_group [] (Fin 0) [Fin 5, Fin 6, Fin 7] [Fin 10, Fin 1, Fin 10] (Fin 5)"

definition candidate_accepted :: Group where
  "candidate_accepted = mk_group [] (Fin 2) [Fin 5, Fin 6, Fin 7] [Fin 10, Fin 11, Fin 12] (Fin 5)"

text \<open>
  A particle inside a world of width and height 100 that moves right at one unit per
  frame, and registries built from it: \<open>frame_gs\<close>, whose first group holds the
  particle and has non-zero force entries for two groups without particles;
  \<open>still_gs\<close>, a single group whose only force entry, for itself, is \<open>0\<close>; \<open>crowd\<close>,
  two groups of two and three particles. \<open>frame_moved c\<close> and \<open>still_moved\<close> are the
  first two with the particle displaced.
\<close>

definition mover :: Particle where
  "mover = \<lparr>x = Fin 10, y = Fin 10, vx = Fin 1, vy = Fin 0, ax = Fin 0, ay = Fin 0\<rparr>"

definition frame_gs :: "Group list" where
  "frame_gs = [mk_group [mover] (Fin 1) [Fin 0, Fin 1, Fin 1] [Fin 50, Fin 50, Fin 50] (Fin 5),
               mk_group [] (Fin 0) [Fin 0, Fin 0, Fin 0] [Fin 50, Fin 50, Fin 50] (Fin 5),
               mk_group [] (Fin 0) [Fin 0, Fin 0, Fin 0] [Fin 50, Fin 50, Fin 50] (Fin 5)]"

definition frame_moved :: "real \<Rightarrow> Group list" where
  "frame_moved c =
     [mk_group [mover\<lparr>x := Fin c\<rparr>] (Fin 1) [Fin 0, Fin 1, Fin 1] [Fin 50, Fin 50, Fin 50] (Fin 5),
      mk_group [] (Fin 0) [Fin 0, Fin 0, Fin 0] [Fin 50, Fin 50, Fin 50] (Fin 5),
      mk_group [] (Fin 0) [Fin 0, Fin 0, Fin 0] [Fin 50, Fin 50, Fin 50] (Fin 5)]"

definition still_gs :: "Group list" where
  "still_gs = [mk_group [mover] (Fin 1) [Fin 0] [Fin 50] (Fin 5)]"

definition still_moved :: "Group list" where
  "still_moved = [mk_group [mover\<lparr>x := Fin 11\<rparr>] (Fin 1) [Fin 0] [Fin 50] (Fin 5)]"

definition crowd :: ParticleGroup where
  "crowd = mk_registry [mk_group [mover, mover] (Fin 2) [Fin 0, Fin 1] [Fin 50, Fin 50] (Fin 5),
                        mk_group [mover, mover, mover] (Fin 3) [Fin 1, Fin 1] [Fin 50, Fin 50] (Fin 5)]"

section \<open>Auxiliary notions for the step\<close>

text \<open>
  Two arrays of groups have the same tables when they have the same length and, position
  by position, the same force tables, range tables and running flags.
\<close>

definition same_tables :: "Group list \<Rightarrow> Group list \<Rightarrow> bool" where
  "same_tables s t =
     (length s = length t \<and>
      (\<forall>m. forces (s ! m) = forces (t ! m) \<and> ranges (s ! m) = ranges (t ! m) \<and>
           isRunning (s ! m) = isRunning (t ! m)))"

text \<open>
  The call of \<^verbatim>\<open>interactGroup\<close> that the step makes for the pair \<open>p = (i, j)\<close> in the
  state \<open>s\<close>, with the force and the range looked up in the tables of \<open>gs0\<close>.
\<close>

definition step_call ::
  "ParticleGroup \<Rightarrow> jsnum \<Rightarrow> jsnum \<Rightarrow> jsnum \<Rightarrow> Group list \<Rightarrow> Group list \<Rightarrow> nat \<times> nat \<Rightarrow> Group list" where
  "step_call pg innerWidth innerHeight dt gs0 s p =
     interactGroup (fst p) (snd p) (jsget (forces (gs0 ! fst p)) (snd p))
       (jsget (ranges (gs0 ! fst p)) (snd p)) dt innerWidth innerHeight (dampening pg) s"

text \<open>
  What one call of \<^verbatim>\<open>interactGroup\<close> does to one target particle \<open>a0\<close> when the source
  group is another group, with particles \<open>bs\<close>: reset the acceleration, add the
  kernel's contribution of every source particle, integrate the velocity, dampen it,
  move, and constrain.
\<close>

definition sweep ::
  "jsnum \<Rightarrow> jsnum \<Rightarrow> jsnum \<Rightarrow> jsnum \<Rightarrow> jsnum \<Rightarrow> jsnum \<Rightarrow> jsnum \<Rightarrow> Particle list \<Rightarrow> Particle
     \<Rightarrow> Particle" where
  "sweep f maxDistance dt width height damp r bs a0 =
     (let a1 = a0\<lparr>ax := Fin 0, ay := Fin 0\<rparr>;
          a2 = foldl (\<lambda>a b. interactParticle a b f maxDistance r) a1 bs;
          a3 = a2\<lparr>vx := vx a2 + dt * ax a2, vy := vy a2 + dt * ay a2\<rparr>;
          a4 = a3\<lparr>vx := vx a3 * damp, vy := vy a3 * damp\<rparr>;
          a5 = a4\<lparr>x := x a4 + vx a4, y := y a4 + vy a4\<rparr>
      in constraint a5 r width height)"

text \<open>
  What a call of \<^verbatim>\<open>interactGroup\<close> with a group as target and as source does to the
  group's particles: they are swept one after the other, each against all the particles
  of the group as they are at that moment, those before it already swept and moved,
  itself and those after it not yet.
\<close>

fun self_sweeps ::
  "jsnum \<Rightarrow> jsnum \<Rightarrow> jsnum \<Rightarrow> jsnum \<Rightarrow> jsnum \<Rightarrow> jsnum \<Rightarrow> jsnum \<Rightarrow> Particle list \<Rightarrow> Particle list
     \<Rightarrow> Particle list" where
  "self_sweeps f maxDistance dt width height damp r swept [] = swept"
| "self_sweeps f maxDistance dt width height damp r swept (a # rest) =
     self_sweeps f maxDistance dt width height damp r
       (swept @ [sweep f maxDistance dt width height damp r (swept @ a # rest) a]) rest"

text \<open>
  Two more registries: \<open>duo_gs\<close>, a target group with the particle \<open>pair_a\<close> and a
  source group with two particles at the place of \<open>pair_b\<close>, both of radius 1, and
  \<open>solo_gs\<close>, a single group with the particle \<open>mover\<close> and the force 1 for itself.
  \<open>duo_after d\<close> and \<open>solo_moved\<close> are what one call of \<^verbatim>\<open>interactGroup\<close> makes of
  them, \<open>d\<close> being the computed distance of \<open>pair_a\<close> and \<open>pair_b\<close>.
\<close>

definition duo_gs :: "Group list" where
  "duo_gs = [mk_group [pair_a] (Fin 1) [Fin 0, Fin 1] [Fin 10, Fin 10] (Fin 1),
             mk_group [pair_b, pair_b] (Fin 2) [Fin 0, Fin 0] [Fin 10, Fin 10] (Fin 1)]"

definition duo_after :: "real \<Rightarrow> Group list" where
  "duo_after d =
     [mk_group [\<lparr>x = Fin (3 - 6 / d), y = Fin (4 - 8 / d), vx = Fin (- (6 / d)), vy = Fin (- (8 / d)),
                 ax = Fin (- (6 / d)), ay = Fin (- (8 / d))\<rparr>]
        (Fin 1) [Fin 0, Fin 1] [Fin 10, Fin 10] (Fin 1),
      mk_group [pair_b, pair_b] (Fin 2) [Fin 0, Fin 0] [Fin 10, Fin 10] (Fin 1)]"

definition solo_gs :: "Group list" where
  "solo_gs = [mk_group [mover] (Fin 1) [Fin 1] [Fin 50] (Fin 5)]"

definition solo_moved :: "Group list" where
  "solo_moved = [mk_group [mover\<lparr>x := Fin 11\<rparr>] (Fin 1) [Fin 1] [Fin 50] (Fin 5)]"

section \<open>Facts about numbers and the computed distance\<close>

lemma less_Fin_iff: "(v < Fin r) = (\<exists>q. v = Fin q \<and> q < r)"
  by (cases v) auto

lemma less_jsnum_FinD: "v < w \<Longrightarrow> \<exists>q r. v = Fin q \<and> w = Fin r \<and> q < r"
  by (cases v; cases w) auto

lemma eps_pos: "(0::real) < 1 / 2 ^ 52"
  by simp

lemma distance_of_cases:
  "distance_of a b = NaN \<or>
   (\<exists>p q. x a - x b = Fin p \<and> y a - y b = Fin q \<and>
      distance_of a b = Fin (sqrt (p * p + q * q + 1 / 2 ^ 52) + 1 / 2 ^ 52))"
proof (cases "x a - x b")
  case NaN
  then show ?thesis by (simp add: distance_of_def)
next
  case (Fin p)
  note dxp = this
  show ?thesis
  proof (cases "y a - y b")
    case NaN
    then show ?thesis using dxp by (simp add: distance_of_def)
  next
    case (Fin q)
    have "0 \<le> p * p + q * q + 1 / 2 ^ 52" by simp
    then have "\<not> p * p + q * q + 1 / 2 ^ 52 < 0" by linarith
    then show ?thesis using dxp Fin
      by (simp add: distance_of_def EPSILON_def)
  qed
qed

lemma distance_pos: "distance_of a b = Fin d \<Longrightarrow> 0 < d"
proof -
  assume h: "distance_of a b = Fin d"
  from distance_of_cases [of a b] h obtain p q where
    "d = sqrt (p * p + q * q + 1 / 2 ^ 52) + 1 / 2 ^ 52" by auto
  moreover have "0 \<le> sqrt (p * p + q * q + 1 / 2 ^ 52)" by simp
  ultimately show ?thesis using eps_pos by linarith
qed

lemma interactParticle_alt:
  "interactParticle a b f m r =
     (if distance_of a b < r then
        a\<lparr>ax := ax a - (Fin (- 6) / distance_of a b) * (x a - x b),
          ay := ay a - (Fin (- 6) / distance_of a b) * (y a - y b)\<rparr>
      else if distance_of a b < m then
        a\<lparr>ax := ax a - (f / distance_of a b) * (x a - x b),
          ay := ay a - (f / distance_of a b) * (y a - y b)\<rparr>
      else a)"
  by (simp add: interactParticle_def distance_of_def Let_def)

lemma times_minus_one: "v * Fin (- 1) = - v"
  by (cases v) simp_all

lemma pair_distance: "\<exists>d. distance_of pair_a pair_b = Fin d \<and> 5 < d \<and> d < 7"
proof -
  let ?e = "(1::real) / 2 ^ 52"
  have d: "distance_of pair_a pair_b = Fin (sqrt (25 + ?e) + ?e)"
    by (simp add: distance_of_def pair_a_def pair_b_def EPSILON_def)
  have "sqrt 25 < sqrt (25 + ?e)"
    by (rule real_sqrt_less_mono) simp
  moreover have "sqrt (25::real) = 5"
    using real_sqrt_abs [of 5] by simp
  ultimately have lo: "5 < sqrt (25 + ?e)" by simp
  have "sqrt (25 + ?e) < sqrt 36"
    by (rule real_sqrt_less_mono) simp
  moreover have "sqrt (36::real) = 6"
    using real_sqrt_abs [of 6] by simp
  ultimately have hi: "sqrt (25 + ?e) < 6" by simp
  have "?e < 1" by simp
  with lo hi d show ?thesis by auto
qed

lemma pair_fields:
  "x pair_a - x pair_b = Fin 3" "y pair_a - y pair_b = Fin 4" "ax pair_a = Fin 0" "ay pair_a = Fin 0"
  by (simp_all add: pair_a_def pair_b_def)

section \<open>The force kernel\<close>

text \<open>
  Claim C6, as amended. When the computed distance \<open>d\<close> of a pair is below the target's
  \<open>particleRadius\<close>, the kernel adds to the acceleration of \<open>a\<close> the displacement
  \<open>(dx, dy)\<close> from \<open>b\<close> to \<open>a\<close> scaled by the positive coefficient \<open>6 / d\<close>, whatever
  the force coefficient \<open>f\<close> and the cutoff are. The added vector is the scaled
  displacement, so its length is \<open>6 / d\<close> times the length of \<open>(dx, dy)\<close>, not \<open>6 / d\<close>.
\<close>

theorem hard_core_scaled_displacement:
  assumes "distance_of a b < r"
  shows "\<exists>d. distance_of a b = Fin d \<and> 0 < d \<and>
           interactParticle a b f m r =
             a\<lparr>ax := ax a + Fin (6 / d) * (x a - x b), ay := ay a + Fin (6 / d) * (y a - y b)\<rparr>"
proof -
  from assms obtain d where d: "distance_of a b = Fin d"
    by (cases "distance_of a b") auto
  then have pos: "0 < d" by (rule distance_pos)
  from distance_of_cases [of a b] d obtain p q where
    pq: "x a - x b = Fin p" "y a - y b = Fin q" by auto
  have "ax a - (Fin (- 6) / Fin d) * Fin p = ax a + Fin (6 / d) * Fin p"
    using pos by (cases "ax a") simp_all
  moreover have "ay a - (Fin (- 6) / Fin d) * Fin q = ay a + Fin (6 / d) * Fin q"
    using pos by (cases "ay a") simp_all
  ultimately have "interactParticle a b f m r =
      a\<lparr>ax := ax a + Fin (6 / d) * (x a - x b), ay := ay a + Fin (6 / d) * (y a - y b)\<rparr>"
    using assms d pq by (simp add: interactParticle_alt)
  with d pos show ?thesis by blast
qed

text \<open>
  The theorem at the pair \<open>pair_a\<close>, \<open>pair_b\<close> with radius 10 and a negative force
  coefficient: the acceleration grows by \<open>(18 / d, 24 / d)\<close>, away from \<open>pair_b\<close>.
\<close>

theorem hard_core_scaled_displacement_witness:
  "distance_of pair_a pair_b < Fin 10 \<and>
   (\<exists>d. distance_of pair_a pair_b = Fin d \<and> 0 < d \<and>
      interactParticle pair_a pair_b (Fin (- 1)) (Fin 50) (Fin 10) =
        pair_a\<lparr>ax := Fin (18 / d), ay := Fin (24 / d)\<rparr>)"
proof -
  from pair_distance have lt: "distance_of pair_a pair_b < Fin 10" by auto
  from hard_core_scaled_displacement [OF lt, of "Fin (- 1)" "Fin 50"] lt
  show ?thesis by (simp add: pair_fields)
qed

text \<open>
  Claim C6 as it is stated fails at the same pair: the distance is below the radius 10,
  and the vector added to the acceleration has length \<open>30 / d\<close> (about 6), not \<open>6 / d\<close>
  (about 1.2).
\<close>

theorem hard_core_magnitude_counterexample:
  "distance_of pair_a pair_b < Fin 10 \<and>
   magnitude (ax (interactParticle pair_a pair_b (Fin 1) (Fin 50) (Fin 10)) - ax pair_a)
             (ay (interactParticle pair_a pair_b (Fin 1) (Fin 50) (Fin 10)) - ay pair_a)
     \<noteq> Fin 6 / distance_of pair_a pair_b"
proof -
  from pair_distance obtain d where d: "distance_of pair_a pair_b = Fin d" "5 < d" "d < 7"
    by blast
  then have lt: "distance_of pair_a pair_b < Fin 10" by simp
  have dx: "x pair_a - x pair_b = Fin 3" "y pair_a - y pair_b = Fin 4" "ax pair_a = Fin 0" "ay pair_a = Fin 0"
    by (simp_all add: pair_a_def pair_b_def)
  have pos: "0 < d" using d by simp
  have res: "interactParticle pair_a pair_b (Fin 1) (Fin 50) (Fin 10) =
      pair_a\<lparr>ax := Fin (18 / d), ay := Fin (24 / d)\<rparr>"
    using lt d pos dx by (simp add: interactParticle_alt)
  have sq: "(18 / d) * (18 / d) + (24 / d) * (24 / d) = (30 / d)\<^sup>2"
    using pos by (simp add: power2_eq_square field_simps)
  have "sqrt ((30 / d)\<^sup>2) = 30 / d"
    using pos by simp
  then have "magnitude (Fin (18 / d)) (Fin (24 / d)) = Fin (30 / d)"
    using pos sq by (simp add: magnitude_def)
  moreover have "30 / d \<noteq> 6 / d" using pos by simp
  ultimately show ?thesis using lt res d dx pos by simp
qed

text \<open>
  Claim C7, as amended. When the computed distance \<open>d\<close> is not below \<open>particleRadius\<close>
  and is below \<open>maxDistance\<close>, the kernel subtracts \<open>(f / d) * dx\<close> from \<open>a.ax\<close> and
  \<open>(f / d) * dy\<close> from \<open>a.ay\<close>; \<open>d\<close> is positive, so the coefficient has the sign of
  \<open>f\<close>: a positive \<open>f\<close> pulls \<open>a\<close> toward \<open>b\<close>, a negative one pushes it away. When the
  distance is neither below \<open>particleRadius\<close> nor below \<open>maxDistance\<close>, the kernel leaves
  \<open>a\<close> as it is.
\<close>

theorem kernel_force_branch:
  "(\<not> distance_of a b < r \<and> distance_of a b < m \<longrightarrow>
      (\<exists>d. distance_of a b = Fin d \<and> 0 < d \<and>
         interactParticle a b f m r =
           a\<lparr>ax := ax a - (f / Fin d) * (x a - x b), ay := ay a - (f / Fin d) * (y a - y b)\<rparr>))
   \<and> (\<not> distance_of a b < r \<and> \<not> distance_of a b < m \<longrightarrow> interactParticle a b f m r = a)"
proof (intro conjI impI)
  assume h: "\<not> distance_of a b < r \<and> distance_of a b < m"
  then obtain d where d: "distance_of a b = Fin d"
    by (cases "distance_of a b") auto
  then have "0 < d" by (rule distance_pos)
  moreover have "interactParticle a b f m r =
      a\<lparr>ax := ax a - (f / Fin d) * (x a - x b), ay := ay a - (f / Fin d) * (y a - y b)\<rparr>"
    using h d by (simp add: interactParticle_alt)
  ultimately show "\<exists>d. distance_of a b = Fin d \<and> 0 < d \<and>
         interactParticle a b f m r =
           a\<lparr>ax := ax a - (f / Fin d) * (x a - x b), ay := ay a - (f / Fin d) * (y a - y b)\<rparr>"
    using d by blast
next
  assume "\<not> distance_of a b < r \<and> \<not> distance_of a b < m"
  then show "interactParticle a b f m r = a"
    by (simp add: interactParticle_alt)
qed

text \<open>
  The theorem at the pair \<open>pair_a\<close>, \<open>pair_b\<close> with radius 2: inside the cutoff 10 the
  force 1 pulls \<open>pair_a\<close> toward \<open>pair_b\<close>, and with the cutoff 3 nothing changes.
\<close>

theorem kernel_force_branch_witness:
  "(\<not> distance_of pair_a pair_b < Fin 2 \<and> distance_of pair_a pair_b < Fin 10) \<and>
   (\<exists>d. distance_of pair_a pair_b = Fin d \<and> 0 < d \<and>
      interactParticle pair_a pair_b (Fin 1) (Fin 10) (Fin 2) =
        pair_a\<lparr>ax := Fin (- (3 / d)), ay := Fin (- (4 / d))\<rparr>) \<and>
   (\<not> distance_of pair_a pair_b < Fin 2 \<and> \<not> distance_of pair_a pair_b < Fin 3) \<and>
   interactParticle pair_a pair_b (Fin 1) (Fin 3) (Fin 2) = pair_a"
proof -
  from pair_distance obtain d where d: "distance_of pair_a pair_b = Fin d" "5 < d" "d < 7"
    by blast
  have h1: "\<not> distance_of pair_a pair_b < Fin 2 \<and> distance_of pair_a pair_b < Fin 10"
    using d by simp
  have h2: "\<not> distance_of pair_a pair_b < Fin 2 \<and> \<not> distance_of pair_a pair_b < Fin 3"
    using d by simp
  from kernel_force_branch [of pair_a pair_b "Fin 2" "Fin 10" "Fin 1"] h1
  have "\<exists>d. distance_of pair_a pair_b = Fin d \<and> 0 < d \<and>
      interactParticle pair_a pair_b (Fin 1) (Fin 10) (Fin 2) =
        pair_a\<lparr>ax := Fin (- (3 / d)), ay := Fin (- (4 / d))\<rparr>"
    by (auto simp add: pair_fields)
  moreover from kernel_force_branch [of pair_a pair_b "Fin 2" "Fin 3" "Fin 1"] h2
  have "interactParticle pair_a pair_b (Fin 1) (Fin 3) (Fin 2) = pair_a" by blast
  ultimately show ?thesis using h1 h2 by blast
qed

text \<open>
  Claim C7 as it is stated fails where the distance is at least \<open>maxDistance\<close> and still
  below \<open>particleRadius\<close>: the hard-core branch comes first. With the cutoff 2 and the
  radius 10 the pair at distance about 5 is beyond the cutoff, and \<open>pair_a\<close> is changed.
\<close>

theorem kernel_beyond_range_counterexample:
  "Fin 2 \<le> distance_of pair_a pair_b \<and> interactParticle pair_a pair_b (Fin 1) (Fin 2) (Fin 10) \<noteq> pair_a"
proof -
  from pair_distance obtain d where d: "distance_of pair_a pair_b = Fin d" "5 < d" "d < 7"
    by blast
  have dx: "x pair_a - x pair_b = Fin 3" "y pair_a - y pair_b = Fin 4" "ax pair_a = Fin 0" "ay pair_a = Fin 0"
    by (simp_all add: pair_a_def pair_b_def)
  have pos: "0 < d" using d by simp
  have res: "interactParticle pair_a pair_b (Fin 1) (Fin 2) (Fin 10) =
      pair_a\<lparr>ax := Fin (18 / d), ay := Fin (24 / d)\<rparr>"
    using d pos dx by (simp add: interactParticle_alt)
  have "18 / d \<noteq> 0" using pos by simp
  then have "ax (pair_a\<lparr>ax := Fin (18 / d), ay := Fin (24 / d)\<rparr>) \<noteq> ax pair_a"
    using dx by simp
  then have "pair_a\<lparr>ax := Fin (18 / d), ay := Fin (24 / d)\<rparr> \<noteq> pair_a"
    by metis
  then show ?thesis using res d by simp
qed

section \<open>The boundary constraint\<close>

text \<open>
  Claim C8, as amended. A particle exactly at \<open>x = r\<close> keeps its \<open>x\<close> and \<open>vx\<close>,
  provided \<open>width - r\<close> is not below \<open>r\<close>. A particle with \<open>x < r\<close> is put at \<open>r\<close> and
  its \<open>vx\<close> is negated. A particle with \<open>x\<close> not below \<open>r\<close> and above \<open>width - r\<close> is
  put at \<open>width - r\<close> and its \<open>vx\<close> is negated. The same holds for \<open>y\<close>, \<open>vy\<close> and
  \<open>height\<close>. Each velocity component is kept or negated, and the acceleration is not
  touched.
\<close>

theorem constraint_cases:
  "(x p = r \<and> \<not> width - r < r \<longrightarrow>
      x (constraint p r width height) = x p \<and> vx (constraint p r width height) = vx p)
   \<and> (x p < r \<longrightarrow>
      x (constraint p r width height) = r \<and> vx (constraint p r width height) = - vx p)
   \<and> (\<not> x p < r \<and> width - r < x p \<longrightarrow>
      x (constraint p r width height) = width - r \<and> vx (constraint p r width height) = - vx p)
   \<and> (y p = r \<and> \<not> height - r < r \<longrightarrow>
      y (constraint p r width height) = y p \<and> vy (constraint p r width height) = vy p)
   \<and> (y p < r \<longrightarrow>
      y (constraint p r width height) = r \<and> vy (constraint p r width height) = - vy p)
   \<and> (\<not> y p < r \<and> height - r < y p \<longrightarrow>
      y (constraint p r width height) = height - r \<and> vy (constraint p r width height) = - vy p)
   \<and> (vx (constraint p r width height) = vx p \<or> vx (constraint p r width height) = - vx p)
   \<and> (vy (constraint p r width height) = vy p \<or> vy (constraint p r width height) = - vy p)
   \<and> ax (constraint p r width height) = ax p \<and> ay (constraint p r width height) = ay p"
proof -
  have irr: "\<not> r < r" by (cases r) simp_all
  show ?thesis
    using irr by (auto simp add: constraint_def Let_def times_minus_one)
qed

text \<open>
  The theorem in a world of width and height 100 with radius 5: a particle in the corner
  \<open>(5, 5)\<close> is unchanged; a particle at \<open>(3, 97)\<close> is put at \<open>(5, 95)\<close> and both
  velocity components change sign.
\<close>

theorem constraint_cases_witness:
  "(x wall_s = Fin 5 \<and> \<not> Fin 100 - Fin 5 < Fin 5 \<and> y wall_s = Fin 5) \<and>
   constraint wall_s (Fin 5) (Fin 100) (Fin 100) = wall_s \<and>
   (x wall_q < Fin 5 \<and> \<not> y wall_q < Fin 5 \<and> Fin 100 - Fin 5 < y wall_q) \<and>
   constraint wall_q (Fin 5) (Fin 100) (Fin 100) =
     wall_q\<lparr>x := Fin 5, vx := Fin 2, y := Fin 95, vy := Fin (- 1)\<rparr>"
proof -
  have h1: "x wall_s = Fin 5 \<and> \<not> Fin 100 - Fin 5 < Fin 5" "y wall_s = Fin 5 \<and> \<not> Fin 100 - Fin 5 < Fin 5"
    by (simp_all add: wall_s_def)
  have h2: "x wall_q < Fin 5" "\<not> y wall_q < Fin 5 \<and> Fin 100 - Fin 5 < y wall_q"
    by (simp_all add: wall_q_def)
  note s = constraint_cases [of wall_s "Fin 5" "Fin 100" "Fin 100"]
  note q = constraint_cases [of wall_q "Fin 5" "Fin 100" "Fin 100"]
  have "constraint wall_s (Fin 5) (Fin 100) (Fin 100) = wall_s"
    using s h1 by (intro Particle.equality) (simp_all add: wall_s_def)
  moreover have "constraint wall_q (Fin 5) (Fin 100) (Fin 100) =
     wall_q\<lparr>x := Fin 5, vx := Fin 2, y := Fin 95, vy := Fin (- 1)\<rparr>"
    using q h2 by (intro Particle.equality) (simp_all add: wall_q_def)
  ultimately show ?thesis using h1 h2 by blast
qed

text \<open>
  Claim C8 as it is stated fails in a world narrower than two radii: with radius 8 and
  width 10 a particle exactly at \<open>x = 8\<close>, moving right, is above \<open>width - r = 2\<close>, so it
  is put at \<open>x = 2\<close> and its \<open>vx\<close> is negated.
\<close>

theorem constraint_at_radius_counterexample:
  "x wall_p = Fin 8 \<and> Fin 0 \<le> vx wall_p \<and>
   constraint wall_p (Fin 8) (Fin 10) (Fin 100) = wall_p\<lparr>x := Fin 2, vx := Fin (- 1)\<rparr> \<and>
   constraint wall_p (Fin 8) (Fin 10) (Fin 100) \<noteq> wall_p"
  by (simp add: constraint_def wall_p_def)

section \<open>The group registry\<close>

lemma upt_2: "[0..<2] = [0, Suc 0]"
  by (simp add: upt_rec)

lemma upt_3: "[0..<3] = [0, Suc 0, 2]"
  by (simp add: upt_rec numeral_3_eq_3 numeral_2_eq_2)

lemma addGroup_loop_length: "length (snd (addGroup_loop grp ns gs)) = length gs"
  by (induction ns arbitrary: gs) (simp_all add: Let_def)

lemma addGroup_loop_no_error:
  "(fst (addGroup_loop grp ns gs) = None) = (\<forall>i\<in>set ns. \<not> jsget (ranges grp) i < particleRadius grp)"
  by (induction ns arbitrary: gs) (simp_all add: Let_def)

lemma addGroup_loop_error_is_validation:
  "fst (addGroup_loop grp ns gs) = Some e \<Longrightarrow> \<exists>u v. e = ParticleTooBig u v"
  by (induction ns arbitrary: gs) (auto simp add: Let_def split: if_splits)

lemma addGroup_loop_nth:
  "distinct ns \<Longrightarrow> fst (addGroup_loop grp ns gs) = None \<Longrightarrow> k < length gs \<Longrightarrow>
   snd (addGroup_loop grp ns gs) ! k =
     (if k \<in> set ns
      then (gs ! k)\<lparr>forces := forces (gs ! k) @ [jsget (forces grp) k],
                     ranges := ranges (gs ! k) @ [jsget (ranges grp) k]\<rparr>
      else gs ! k)"
proof (induction ns arbitrary: gs)
  case Nil
  then show ?case by simp
next
  case (Cons i rest)
  let ?gs1 = "gs[i := (gs ! i)\<lparr>forces := forces (gs ! i) @ [jsget (forces grp) i],
                                 ranges := ranges (gs ! i) @ [jsget (ranges grp) i]\<rparr>]"
  from Cons.prems have ok: "\<not> jsget (ranges grp) i < particleRadius grp"
    by (auto split: if_splits)
  then have unfold: "addGroup_loop grp (i # rest) gs = addGroup_loop grp rest ?gs1"
    by (simp add: Let_def)
  from Cons.prems have d: "distinct rest" "i \<notin> set rest" by simp_all
  from Cons.prems unfold have none: "fst (addGroup_loop grp rest ?gs1) = None" by simp
  have len: "k < length ?gs1" using Cons.prems by simp
  note ih = Cons.IH [OF d(1) none len]
  show ?case
  proof (cases "k = i")
    case True
    then show ?thesis using ih d Cons.prems unfold by simp
  next
    case False
    then show ?thesis using ih d unfold by auto
  qed
qed

lemma updateParticleCount_error:
  "updateParticleCount w h rand grp = Inl e \<Longrightarrow> e = RangeError"
  by (auto simp add: updateParticleCount_def Let_def split: if_splits jsnum.splits)

lemma updateParticleCount_tables:
  "updateParticleCount w h rand grp = Inr grp' \<Longrightarrow>
   forces grp' = forces grp \<and> ranges grp' = ranges grp"
  by (auto simp add: updateParticleCount_def Let_def split: if_splits jsnum.splits)

lemma validation_error_iff:
  "(\<exists>u v. fst (addGroup w h rand pg grp) = Inl (ParticleTooBig u v)) =
   (\<exists>i<length (groups pg). jsget (ranges grp) i < particleRadius grp)"
proof -
  let ?l = "addGroup_loop grp [0..<length (groups pg)] (groups pg)"
  have none: "(fst ?l = None) = (\<forall>i<length (groups pg). \<not> jsget (ranges grp) i < particleRadius grp)"
    by (auto simp add: addGroup_loop_no_error)
  show ?thesis
  proof (cases "fst ?l")
    case None
    then obtain gs' where l: "?l = (None, gs')" by (cases ?l) simp
    have "\<not> (\<exists>u v. fst (addGroup w h rand pg grp) = Inl (ParticleTooBig u v))"
      using l updateParticleCount_error [of w h rand grp]
      by (auto simp add: addGroup_def split: sum.splits)
    then show ?thesis using none None by auto
  next
    case (Some e)
    then obtain gs' where l: "?l = (Some e, gs')" by (cases ?l) simp
    from addGroup_loop_error_is_validation [OF Some] obtain u v where "e = ParticleTooBig u v"
      by blast
    then have "\<exists>u v. fst (addGroup w h rand pg grp) = Inl (ParticleTooBig u v)"
      using l by (simp add: addGroup_def)
    then show ?thesis using none Some by auto
  qed
qed

lemma addGroup_accepted_groups:
  assumes "\<not> (\<exists>u v. fst (addGroup w h rand pg grp) = Inl (ParticleTooBig u v))"
  shows "\<exists>grp'. groups (snd (addGroup w h rand pg grp)) =
            snd (addGroup_loop grp [0..<length (groups pg)] (groups pg)) @ [grp'] \<and>
            forces grp' = forces grp \<and> ranges grp' = ranges grp \<and>
            fst (addGroup_loop grp [0..<length (groups pg)] (groups pg)) = None"
proof -
  let ?l = "addGroup_loop grp [0..<length (groups pg)] (groups pg)"
  from assms have "\<not> (\<exists>i<length (groups pg). jsget (ranges grp) i < particleRadius grp)"
    by (simp add: validation_error_iff)
  then have "fst ?l = None" by (auto simp add: addGroup_loop_no_error)
  then obtain gs' where l: "?l = (None, gs')" by (cases ?l) simp
  show ?thesis
  proof (cases "updateParticleCount w h rand grp")
    case (Inl e)
    then show ?thesis using l by (simp add: addGroup_def)
  next
    case (Inr grp')
    then show ?thesis using l updateParticleCount_tables [OF Inr] by (simp add: addGroup_def)
  qed
qed

text \<open>
  Claim C1 does not hold of the code: \<^verbatim>\<open>addGroup\<close> checks and pushes in the same loop.
  With the registry of two groups and the candidate whose second range is below its
  radius, the loop has already pushed the candidate's first force and range on the first
  group when it throws at index 1, and the registry is no longer what it was.
\<close>

theorem addGroup_partial_mutation:
  "addGroup w h rand registry_two candidate_rejected =
     (Inl (ParticleTooBig (Fin 1) (Fin 5)),
      mk_registry [mk_group [] (Fin 0) [Fin 1, Fin 2, Fin 5] [Fin 20, Fin 21, Fin 10] (Fin 5),
                   mk_group [] (Fin 0) [Fin 3, Fin 4] [Fin 22, Fin 23] (Fin 5)])
   \<and> snd (addGroup w h rand registry_two candidate_rejected) \<noteq> registry_two"
  by (simp add: addGroup_def registry_two_def candidate_rejected_def mk_group_def
      mk_registry_def upt_2 jsget_def Let_def)

text \<open>
  Claim C4. \<^verbatim>\<open>addGroup\<close> throws its validation error exactly when some range entry of
  the candidate at an index below the number of groups already in the registry is
  smaller than the candidate's \<open>particleRadius\<close>. In particular a candidate that passes
  at those indices is added (the registry grows by one) and no validation error is
  thrown, even though its range entry for itself, at the index equal to the former number
  of groups, is smaller than its \<open>particleRadius\<close>.
\<close>

theorem addGroup_validation:
  "((\<exists>u v. fst (addGroup w h rand pg grp) = Inl (ParticleTooBig u v)) =
      (\<exists>i<length (groups pg). jsget (ranges grp) i < particleRadius grp))
   \<and> ((\<forall>i<length (groups pg). \<not> jsget (ranges grp) i < particleRadius grp) \<and>
        jsget (ranges grp) (length (groups pg)) < particleRadius grp \<longrightarrow>
        \<not> (\<exists>u v. fst (addGroup w h rand pg grp) = Inl (ParticleTooBig u v)) \<and>
        length (groups (snd (addGroup w h rand pg grp))) = Suc (length (groups pg)))"
proof -
  have iff: "(\<exists>u v. fst (addGroup w h rand pg grp) = Inl (ParticleTooBig u v)) =
      (\<exists>i<length (groups pg). jsget (ranges grp) i < particleRadius grp)"
    by (rule validation_error_iff)
  have acc: "\<not> (\<exists>u v. fst (addGroup w h rand pg grp) = Inl (ParticleTooBig u v)) \<and>
        length (groups (snd (addGroup w h rand pg grp))) = Suc (length (groups pg))"
    if h: "\<forall>i<length (groups pg). \<not> jsget (ranges grp) i < particleRadius grp"
  proof -
    from h have no: "\<not> (\<exists>u v. fst (addGroup w h rand pg grp) = Inl (ParticleTooBig u v))"
      by (simp add: validation_error_iff)
    from addGroup_accepted_groups [OF no]
    have "length (groups (snd (addGroup w h rand pg grp))) = Suc (length (groups pg))"
      by (auto simp add: addGroup_loop_length)
    with no show ?thesis by simp
  qed
  show ?thesis using iff acc by blast
qed

text \<open>
  The theorem at the registry of one group: the candidate's range for itself is 1, below
  its radius 5, and it is added.
\<close>

theorem addGroup_validation_witness:
  "\<not> jsget (ranges candidate_small_self_range) 0 < particleRadius candidate_small_self_range \<and>
   jsget (ranges candidate_small_self_range) (length (groups registry_one)) < particleRadius candidate_small_self_range \<and>
   \<not> (\<exists>u v. fst (addGroup (Fin 100) (Fin 100) (\<lambda>n. 0) registry_one candidate_small_self_range) = Inl (ParticleTooBig u v)) \<and>
   length (groups (snd (addGroup (Fin 100) (Fin 100) (\<lambda>n. 0) registry_one candidate_small_self_range))) = 2 \<and>
   addGroup (Fin 100) (Fin 100) (\<lambda>n. 0) registry_one candidate_small_self_range =
     (Inr candidate_small_self_range, mk_registry [mk_group [] (Fin 0) [Fin 1, Fin 1] [Fin 20, Fin 10] (Fin 5), candidate_small_self_range])"
proof -
  have h: "(\<forall>i<length (groups registry_one). \<not> jsget (ranges candidate_small_self_range) i < particleRadius candidate_small_self_range) \<and>
        jsget (ranges candidate_small_self_range) (length (groups registry_one)) < particleRadius candidate_small_self_range"
    by (simp add: registry_one_def candidate_small_self_range_def mk_group_def mk_registry_def jsget_def)
  have e: "addGroup (Fin 100) (Fin 100) (\<lambda>n. 0) registry_one candidate_small_self_range =
     (Inr candidate_small_self_range, mk_registry [mk_group [] (Fin 0) [Fin 1, Fin 1] [Fin 20, Fin 10] (Fin 5), candidate_small_self_range])"
    by (simp add: addGroup_def updateParticleCount_def registry_one_def candidate_small_self_range_def mk_group_def
        mk_registry_def jsget_def Let_def)
  from addGroup_validation [of "Fin 100" "Fin 100" "\<lambda>n. 0" registry_one candidate_small_self_range] h
  have "\<not> (\<exists>u v. fst (addGroup (Fin 100) (Fin 100) (\<lambda>n. 0) registry_one candidate_small_self_range) = Inl (ParticleTooBig u v)) \<and>
        length (groups (snd (addGroup (Fin 100) (Fin 100) (\<lambda>n. 0) registry_one candidate_small_self_range))) = Suc (length (groups registry_one))"
    by blast
  moreover have "length (groups registry_one) = 1" by (simp add: registry_one_def mk_registry_def)
  ultimately show ?thesis using h e by simp
qed

subsection \<open>Table alignment\<close>

lemma length_splice1_cong:
  "length xs = length ys \<Longrightarrow> length (splice1 i xs) = length (splice1 i ys)"
  by (simp add: splice1_def Let_def)

lemma aligned_iff:
  "aligned gs = (\<forall>g\<in>set gs. length (forces g) = length gs \<and> length (ranges g) = length gs)"
  by (simp add: aligned_def list_all_iff)

lemma set_splice1: "set (splice1 i xs) \<subseteq> set xs"
proof -
  have "set (take n xs) \<subseteq> set xs" "set (drop m xs) \<subseteq> set xs" for n m
    by (rule set_take_subset, rule set_drop_subset)
  then show ?thesis by (auto simp add: splice1_def Let_def)
qed

lemma removeGroup_aligned:
  assumes "aligned (groups pg)"
  shows "aligned (groups (removeGroup pg i))"
proof -
  have "length (splice1 i (forces g)) = length (splice1 i (groups pg)) \<and>
        length (splice1 i (ranges g)) = length (splice1 i (groups pg))"
    if "g \<in> set (splice1 i (groups pg))" for g
  proof -
    have mem: "g \<in> set (groups pg)"
      using set_splice1 [of i "groups pg"] that by (rule subsetD)
    from assms have "\<forall>g\<in>set (groups pg).
        length (forces g) = length (groups pg) \<and> length (ranges g) = length (groups pg)"
      by (simp only: aligned_iff)
    with mem have "length (forces g) = length (groups pg)" "length (ranges g) = length (groups pg)"
      by blast+
    then show ?thesis
      using length_splice1_cong [of "forces g" "groups pg" i]
        length_splice1_cong [of "ranges g" "groups pg" i]
      by simp
  qed
  then show ?thesis by (simp add: removeGroup_def aligned_iff)
qed

lemma removeGroup_length:
  "0 \<le> i \<Longrightarrow> i < int (length (groups pg)) \<Longrightarrow>
   length (groups (removeGroup pg i)) = length (groups pg) - 1"
  by (simp add: removeGroup_def splice1_def Let_def min_def)

lemma addGroup_aligned:
  assumes al: "aligned (groups pg)"
    and lf: "length (forces grp) = Suc (length (groups pg))"
    and lr: "length (ranges grp) = Suc (length (groups pg))"
    and no: "\<not> (\<exists>u v. fst (addGroup w h rand pg grp) = Inl (ParticleTooBig u v))"
  shows "aligned (groups (snd (addGroup w h rand pg grp)))"
    and "length (groups (snd (addGroup w h rand pg grp))) = Suc (length (groups pg))"
    and "\<forall>k<length (groups pg).
           forces (groups (snd (addGroup w h rand pg grp)) ! k) = forces (groups pg ! k) @ [forces grp ! k] \<and>
           ranges (groups (snd (addGroup w h rand pg grp)) ! k) = ranges (groups pg ! k) @ [ranges grp ! k]"
    and "forces (groups (snd (addGroup w h rand pg grp)) ! length (groups pg)) = forces grp \<and>
         ranges (groups (snd (addGroup w h rand pg grp)) ! length (groups pg)) = ranges grp"
proof -
  let ?n = "length (groups pg)"
  let ?l = "snd (addGroup_loop grp [0..<?n] (groups pg))"
  from addGroup_accepted_groups [OF no] obtain grp' where
    g: "groups (snd (addGroup w h rand pg grp)) = ?l @ [grp']"
       "forces grp' = forces grp" "ranges grp' = ranges grp"
       "fst (addGroup_loop grp [0..<?n] (groups pg)) = None"
    by blast
  have len: "length ?l = ?n" by (rule addGroup_loop_length)
  have nth: "?l ! k = (groups pg ! k)\<lparr>forces := forces (groups pg ! k) @ [forces grp ! k],
                                        ranges := ranges (groups pg ! k) @ [ranges grp ! k]\<rparr>"
    if "k < ?n" for k
    using addGroup_loop_nth [OF _ g(4) that] that lf lr by (simp add: jsget_def)
  show "length (groups (snd (addGroup w h rand pg grp))) = Suc ?n"
    using g len by simp
  show "\<forall>k<?n.
           forces (groups (snd (addGroup w h rand pg grp)) ! k) = forces (groups pg ! k) @ [forces grp ! k] \<and>
           ranges (groups (snd (addGroup w h rand pg grp)) ! k) = ranges (groups pg ! k) @ [ranges grp ! k]"
    using g len nth by (simp add: nth_append)
  show "forces (groups (snd (addGroup w h rand pg grp)) ! ?n) = forces grp \<and>
         ranges (groups (snd (addGroup w h rand pg grp)) ! ?n) = ranges grp"
    using g len by (simp add: nth_append)
  have "length (forces q) = Suc ?n \<and> length (ranges q) = Suc ?n" if "q \<in> set ?l" for q
  proof -
    from that obtain k where k: "k < ?n" "q = ?l ! k"
      using len by (auto simp add: in_set_conv_nth)
    from al have "\<forall>g\<in>set (groups pg).
        length (forces g) = length (groups pg) \<and> length (ranges g) = length (groups pg)"
      by (simp only: aligned_iff)
    moreover have "groups pg ! k \<in> set (groups pg)" using k(1) by (rule nth_mem)
    ultimately have "length (forces (groups pg ! k)) = ?n" "length (ranges (groups pg ! k)) = ?n"
      by blast+
    then show ?thesis using nth [OF k(1)] k by simp
  qed
  then show "aligned (groups (snd (addGroup w h rand pg grp)))"
    using g len lf lr by (auto simp add: aligned_iff)
qed

text \<open>
  The table-alignment invariant is preserved when \<^verbatim>\<open>addGroup\<close> adds a group whose own
  tables have as many entries as the registry then has groups: the registry grows by
  one, every former group gets the candidate's entry for it appended to its force and
  range tables, and the candidate's tables come last, in registry order. The invariant
  is also preserved by \<^verbatim>\<open>removeGroup\<close>, which splices the index out of the registry
  and out of the force and range tables of every group that remains; the registry
  shrinks by one when the index is one of its positions.
\<close>

theorem table_alignment_preserved:
  "(aligned (groups pg) \<and> length (forces grp) = Suc (length (groups pg)) \<and>
    length (ranges grp) = Suc (length (groups pg)) \<and>
    \<not> (\<exists>u v. fst (addGroup w h rand pg grp) = Inl (ParticleTooBig u v)) \<longrightarrow>
      aligned (groups (snd (addGroup w h rand pg grp))) \<and>
      length (groups (snd (addGroup w h rand pg grp))) = Suc (length (groups pg)) \<and>
      (\<forall>k<length (groups pg).
         forces (groups (snd (addGroup w h rand pg grp)) ! k) = forces (groups pg ! k) @ [forces grp ! k] \<and>
         ranges (groups (snd (addGroup w h rand pg grp)) ! k) = ranges (groups pg ! k) @ [ranges grp ! k]) \<and>
      forces (groups (snd (addGroup w h rand pg grp)) ! length (groups pg)) = forces grp \<and>
      ranges (groups (snd (addGroup w h rand pg grp)) ! length (groups pg)) = ranges grp)
   \<and> (aligned (groups pg) \<longrightarrow>
      aligned (groups (removeGroup pg i)) \<and>
      (0 \<le> i \<and> i < int (length (groups pg)) \<longrightarrow>
         length (groups (removeGroup pg i)) = length (groups pg) - 1))"
  using addGroup_aligned [of pg grp w h rand] removeGroup_aligned [of pg i]
    removeGroup_length [of i pg]
  by blast

text \<open>
  The theorem at the registry of two groups: adding the accepted candidate, which asks
  for two particles, and removing the group at index 0.
\<close>

theorem table_alignment_preserved_witness:
  "aligned (groups registry_two) \<and> length (forces candidate_accepted) = Suc (length (groups registry_two)) \<and>
   length (ranges candidate_accepted) = Suc (length (groups registry_two)) \<and>
   \<not> (\<exists>u v. fst (addGroup (Fin 100) (Fin 100) (\<lambda>n. 1 / 2) registry_two candidate_accepted) = Inl (ParticleTooBig u v)) \<and>
   aligned (groups (snd (addGroup (Fin 100) (Fin 100) (\<lambda>n. 1 / 2) registry_two candidate_accepted))) \<and>
   length (groups (snd (addGroup (Fin 100) (Fin 100) (\<lambda>n. 1 / 2) registry_two candidate_accepted))) = 3 \<and>
   aligned (groups (removeGroup registry_two 0)) \<and> length (groups (removeGroup registry_two 0)) = 1"
proof -
  have h1: "aligned (groups registry_two)"
    by (simp add: registry_two_def mk_registry_def mk_group_def aligned_def)
  have h2: "length (forces candidate_accepted) = Suc (length (groups registry_two))"
    "length (ranges candidate_accepted) = Suc (length (groups registry_two))"
    by (simp_all add: registry_two_def candidate_accepted_def mk_registry_def mk_group_def)
  have e: "fst (addGroup (Fin 100) (Fin 100) (\<lambda>n. 1 / 2) registry_two candidate_accepted) =
      Inr (candidate_accepted\<lparr>items := [\<lparr>x = Fin 50, y = Fin 50, vx = Fin 0, vy = Fin 0, ax = Fin 0, ay = Fin 0\<rparr>,
                                \<lparr>x = Fin 50, y = Fin 50, vx = Fin 0, vy = Fin 0, ax = Fin 0, ay = Fin 0\<rparr>]\<rparr>)"
    by (simp add: addGroup_def updateParticleCount_def newParticle_def registry_two_def candidate_accepted_def
        mk_group_def mk_registry_def jsget_def upt_2 Let_def)
  then have h3: "\<not> (\<exists>u v. fst (addGroup (Fin 100) (Fin 100) (\<lambda>n. 1 / 2) registry_two candidate_accepted) = Inl (ParticleTooBig u v))"
    by simp
  have n: "length (groups registry_two) = 2" "(0::int) \<le> 0 \<and> 0 < int (length (groups registry_two))"
    by (simp_all add: registry_two_def mk_registry_def)
  from table_alignment_preserved [of registry_two candidate_accepted "Fin 100" "Fin 100" "\<lambda>n. 1 / 2" 0] h1 h2 h3 n
  show ?thesis by simp
qed

text \<open>
  Claim C5 does not hold of the code on one path, the one of claim C1. The registry of
  two groups is aligned and the rejected candidate's own tables have three entries, the
  number of groups the registry would have; \<^verbatim>\<open>addGroup\<close> throws at index 1 and
  leaves the first group with three entries in a registry of two groups.
\<close>

theorem alignment_lost_on_rejected_add:
  "aligned (groups registry_two) \<and>
   length (forces candidate_rejected) = Suc (length (groups registry_two)) \<and>
   length (ranges candidate_rejected) = Suc (length (groups registry_two)) \<and>
   fst (addGroup w h rand registry_two candidate_rejected) = Inl (ParticleTooBig (Fin 1) (Fin 5)) \<and>
   length (groups (snd (addGroup w h rand registry_two candidate_rejected))) = 2 \<and>
   length (forces (groups (snd (addGroup w h rand registry_two candidate_rejected)) ! 0)) = 3 \<and>
   \<not> aligned (groups (snd (addGroup w h rand registry_two candidate_rejected)))"
  by (simp add: addGroup_def registry_two_def candidate_rejected_def mk_group_def
      mk_registry_def upt_2 jsget_def aligned_def Let_def)

text \<open>
  Claim C9. Removing the group at index 1 from a registry of three groups with aligned
  tables leaves exactly the groups formerly at indices 0 and 2, in this order; each of
  them has force and range tables of two entries, the former entry 0 at index 0 and the
  former entry 2 at index 1, and is otherwise as it was.
\<close>

theorem removeGroup_middle_of_three:
  assumes len: "length (groups pg) = 3" and al: "aligned (groups pg)"
  shows "groups (removeGroup pg 1) =
     [(groups pg ! 0)\<lparr>ranges := [ranges (groups pg ! 0) ! 0, ranges (groups pg ! 0) ! 2],
                       forces := [forces (groups pg ! 0) ! 0, forces (groups pg ! 0) ! 2]\<rparr>,
      (groups pg ! 2)\<lparr>ranges := [ranges (groups pg ! 2) ! 0, ranges (groups pg ! 2) ! 2],
                       forces := [forces (groups pg ! 2) ! 0, forces (groups pg ! 2) ! 2]\<rparr>]"
proof -
  have three: "\<exists>a b c. zs = [a, b, c]" if "length zs = 3" for zs :: "'z list"
    using that by (auto simp add: numeral_3_eq_3 length_Suc_conv)
  from three [OF len] obtain g0 g1 g2 where gs: "groups pg = [g0, g1, g2]" by blast
  from al gs have l: "length (forces g0) = 3" "length (ranges g0) = 3"
    "length (forces g2) = 3" "length (ranges g2) = 3"
    by (simp_all add: aligned_def)
  from three [OF l(1)] obtain f0 f1 f2 where f: "forces g0 = [f0, f1, f2]" by blast
  from three [OF l(2)] obtain r0 r1 r2 where r: "ranges g0 = [r0, r1, r2]" by blast
  from three [OF l(3)] obtain f0' f1' f2' where f': "forces g2 = [f0', f1', f2']" by blast
  from three [OF l(4)] obtain r0' r1' r2' where r': "ranges g2 = [r0', r1', r2']" by blast
  show ?thesis
    by (simp add: removeGroup_def splice1_def gs f r f' r')
qed

text \<open>The theorem at the registry of three groups.\<close>

theorem removeGroup_middle_of_three_witness:
  "length (groups registry_three) = 3 \<and> aligned (groups registry_three) \<and>
   groups (removeGroup registry_three 1) =
     [mk_group [] (Fin 0) [Fin 1, Fin 3] [Fin 11, Fin 13] (Fin 5),
      mk_group [] (Fin 0) [Fin 7, Fin 9] [Fin 31, Fin 33] (Fin 5)]"
proof -
  have h: "length (groups registry_three) = 3" "aligned (groups registry_three)"
    by (simp_all add: registry_three_def mk_registry_def mk_group_def aligned_def)
  from removeGroup_middle_of_three [OF h] h show ?thesis
    by (simp add: registry_three_def mk_registry_def mk_group_def)
qed

subsection \<open>The number of computations per frame\<close>

lemma foldl_add_sum:
  "foldl (\<lambda>k j. if c j then k else k + f j) a [0..<n] = a + (\<Sum>j<n. if c j then 0 else f j)"
  for a :: nat
  by (induction n) simp_all

text \<open>
  Claim C10. \<^verbatim>\<open>computationsPerFrame\<close> is the sum, over the ordered pairs \<open>(i, j)\<close> of
  positions in the registry such that group \<open>i\<close> is running and its force entry for
  group \<open>j\<close> is not \<open>0\<close>, of the product of the two groups' numbers of particles.
\<close>

theorem computationsPerFrame_sum:
  "computationsPerFrame pg =
     (\<Sum>i<length (groups pg). \<Sum>j<length (groups pg).
        if isRunning (groups pg ! i) \<and> jsget (forces (groups pg ! i)) j \<noteq> Fin 0
        then length (items (groups pg ! i)) * length (items (groups pg ! j)) else 0)"
proof -
  let ?gs = "groups pg"
  let ?n = "length ?gs"
  let ?t = "\<lambda>i j. if isRunning (?gs ! i) \<and> jsget (forces (?gs ! i)) j \<noteq> Fin 0
        then length (items (?gs ! i)) * length (items (?gs ! j)) else 0"
  have inner: "foldl (\<lambda>k' j. if \<not> isRunning (?gs ! i) \<or> jsget (forces (?gs ! i)) j = Fin 0
                                      then k'
                                      else k' + length (items (?gs ! i)) * length (items (?gs ! j)))
                         k [0..<?n] = k + (\<Sum>j<?n. ?t i j)" for i k
  proof -
    have "(\<Sum>j<?n. if \<not> isRunning (?gs ! i) \<or> jsget (forces (?gs ! i)) j = Fin 0 then 0
                    else length (items (?gs ! i)) * length (items (?gs ! j))) = (\<Sum>j<?n. ?t i j)"
      by (rule sum.cong) auto
    then show ?thesis
      using foldl_add_sum [of "\<lambda>j. \<not> isRunning (?gs ! i) \<or> jsget (forces (?gs ! i)) j = Fin 0"
          "\<lambda>j. length (items (?gs ! i)) * length (items (?gs ! j))" k ?n]
      by simp
  qed
  have "computationsPerFrame pg = foldl (\<lambda>k i. k + (\<Sum>j<?n. ?t i j)) 0 [0..<?n]"
    by (simp only: computationsPerFrame_def Let_def inner)
  also have "\<dots> = 0 + (\<Sum>i<?n. if False then 0 else (\<Sum>j<?n. ?t i j))"
    using foldl_add_sum [of "\<lambda>i. False" "\<lambda>i. \<Sum>j<?n. ?t i j" 0 ?n] by simp
  finally show ?thesis by simp
qed

section \<open>The simulation step\<close>

subsection \<open>The step leaves the tables alone\<close>

lemma same_tables_refl: "same_tables s s"
  by (simp add: same_tables_def)

lemma same_tables_trans: "same_tables s t \<Longrightarrow> same_tables t u \<Longrightarrow> same_tables s u"
  by (simp add: same_tables_def)

lemma same_tables_update_items:
  "same_tables (gs[i := (gs ! i)\<lparr>items := ps\<rparr>]) gs"
proof (cases "i < length gs")
  case True
  then show ?thesis
    by (simp add: same_tables_def nth_list_update)
next
  case False
  then have "gs[i := (gs ! i)\<lparr>items := ps\<rparr>] = gs" by (simp add: list_update_beyond)
  then show ?thesis by (simp add: same_tables_refl)
qed

lemma interactGroup_particle_same:
  "same_tables (interactGroup_particle i1 i2 f m dt w h damp gs k) gs"
  by (simp add: interactGroup_particle_def Let_def same_tables_update_items)

lemma foldl_same_tables:
  "(\<And>s k. same_tables (body s k) s) \<Longrightarrow> same_tables (foldl body s ks) s"
proof (induction ks arbitrary: s)
  case Nil
  then show ?case by (simp add: same_tables_refl)
next
  case (Cons k ks)
  have "same_tables (foldl body (body s k) ks) (body s k)"
    by (rule Cons.IH) (rule Cons.prems)
  moreover have "same_tables (body s k) s" by (rule Cons.prems)
  ultimately show ?case using same_tables_trans by auto
qed

lemma interactGroup_same: "same_tables (interactGroup i1 i2 f m dt w h damp gs) gs"
  unfolding interactGroup_def
  by (rule foldl_same_tables) (rule interactGroup_particle_same)

lemma step_call_same: "same_tables (step_call pg w h dt gs0 s p) s"
  by (simp add: step_call_def interactGroup_same)

lemma foldl_step_call_same: "same_tables (foldl (step_call pg w h dt gs0) s ps) s"
  by (rule foldl_same_tables) (rule step_call_same)

subsection \<open>The step as a sequence of calls\<close>

lemma step_pair_call:
  assumes "same_tables s gs0"
  shows "step_pair pg w h dt i s j =
           (if jsget (forces (gs0 ! i)) j = Fin 0 then s else step_call pg w h dt gs0 s (i, j))"
proof -
  from assms have "forces (s ! i) = forces (gs0 ! i)" "ranges (s ! i) = ranges (gs0 ! i)"
    by (simp_all add: same_tables_def)
  then show ?thesis by (simp add: step_pair_def step_call_def)
qed

lemma step_pairs_calls:
  "same_tables s gs0 \<Longrightarrow>
   foldl (step_pair pg w h dt i) s js =
     foldl (step_call pg w h dt gs0) s
       (map (Pair i) (filter (\<lambda>j. jsget (forces (gs0 ! i)) j \<noteq> Fin 0) js))"
proof (induction js arbitrary: s)
  case Nil
  then show ?case by simp
next
  case (Cons j js)
  show ?case
  proof (cases "jsget (forces (gs0 ! i)) j = Fin 0")
    case True
    then show ?thesis using Cons.IH [OF Cons.prems] step_pair_call [OF Cons.prems]
      by simp
  next
    case False
    have "same_tables (step_call pg w h dt gs0 s (i, j)) gs0"
      using step_call_same Cons.prems by (rule same_tables_trans)
    from Cons.IH [OF this] False step_pair_call [OF Cons.prems]
    show ?thesis by simp
  qed
qed

lemma step_target_calls:
  assumes "same_tables s gs0"
  shows "step_target pg w h dt len s i =
     foldl (step_call pg w h dt gs0) s
       (if isRunning (gs0 ! i)
        then map (Pair i) (filter (\<lambda>j. jsget (forces (gs0 ! i)) j \<noteq> Fin 0) [0..<len])
        else [])"
proof -
  from assms have "isRunning (s ! i) = isRunning (gs0 ! i)"
    by (simp add: same_tables_def)
  then show ?thesis
    using step_pairs_calls [OF assms] by (simp add: step_target_def)
qed

lemma step_targets_calls:
  "same_tables s gs0 \<Longrightarrow>
   foldl (step_target pg w h dt len) s ns =
     foldl (step_call pg w h dt gs0) s
       (concat (map (\<lambda>i. if isRunning (gs0 ! i)
                          then map (Pair i)
                                 (filter (\<lambda>j. jsget (forces (gs0 ! i)) j \<noteq> Fin 0) [0..<len])
                          else []) ns))"
proof (induction ns arbitrary: s)
  case Nil
  then show ?case by simp
next
  case (Cons i ns)
  let ?row = "if isRunning (gs0 ! i)
        then map (Pair i) (filter (\<lambda>j. jsget (forces (gs0 ! i)) j \<noteq> Fin 0) [0..<len])
        else []"
  have eq: "step_target pg w h dt len s i = foldl (step_call pg w h dt gs0) s ?row"
    by (rule step_target_calls [OF Cons.prems])
  have "same_tables (foldl (step_call pg w h dt gs0) s ?row) gs0"
    using foldl_step_call_same Cons.prems by (rule same_tables_trans)
  then have "same_tables (step_target pg w h dt len s i) gs0" by (simp only: eq)
  from Cons.IH [OF this] eq show ?case by simp
qed

lemma step_calls_fold:
  "step pg w h gs dt = foldl (step_call pg w h dt gs) gs (step_calls gs)"
  unfolding step_def step_calls_def
  by (rule step_targets_calls) (rule same_tables_refl)

subsection \<open>One call on a target group and another source group\<close>

lemma foldl_nth_upt: "foldl (\<lambda>a j. F a (bs ! j)) a [0..<length bs] = foldl F a bs"
proof -
  have "foldl F a bs = foldl F a (map ((!) bs) [0..<length bs])"
    by (simp only: map_nth)
  also have "\<dots> = foldl (\<lambda>a j. F a (bs ! j)) a [0..<length bs]"
    by (simp only: foldl_map)
  finally show ?thesis by simp
qed

lemma interactGroup_particle_distinct:
  assumes "i1 \<noteq> i2"
  shows "interactGroup_particle i1 i2 f m dt w h damp s k =
     s[i1 := (s ! i1)\<lparr>items := (items (s ! i1))
         [k := sweep f m dt w h damp (particleRadius (s ! i1)) (items (s ! i2)) (items (s ! i1) ! k)]\<rparr>]"
proof -
  have "foldl (\<lambda>a j. interactParticle a (if i1 = i2 \<and> j = k then a else items (s ! i2) ! j)
                         f m (particleRadius (s ! i1))) a1 [0..<length (items (s ! i2))] =
        foldl (\<lambda>a b. interactParticle a b f m (particleRadius (s ! i1))) a1 (items (s ! i2))" for a1
    using assms
      foldl_nth_upt [of "\<lambda>a b. interactParticle a b f m (particleRadius (s ! i1))" "items (s ! i2)" a1]
    by simp
  then show ?thesis
    by (simp add: interactGroup_particle_def sweep_def Let_def)
qed

lemma swept_prefix_step:
  assumes "n < length ps"
  shows "(map S (take n ps) @ drop n ps)[n := S (ps ! n)] = map S (take (Suc n) ps) @ drop (Suc n) ps"
    and "(map S (take n ps) @ drop n ps) ! n = ps ! n"
proof -
  have d: "drop n ps = ps ! n # drop (Suc n) ps"
    using assms by (simp add: Cons_nth_drop_Suc)
  have t: "take (Suc n) ps = take n ps @ [ps ! n]"
    using assms by (simp add: take_Suc_conv_app_nth)
  have l: "length (map S (take n ps)) = n" using assms by simp
  show "(map S (take n ps) @ drop n ps)[n := S (ps ! n)] = map S (take (Suc n) ps) @ drop (Suc n) ps"
    using l by (simp add: d t list_update_append)
  show "(map S (take n ps) @ drop n ps) ! n = ps ! n"
    using l by (simp add: d nth_append)
qed

lemma interactGroup_prefix:
  assumes ne: "i1 \<noteq> i2" and lt: "i1 < length gs"
  shows "n \<le> length (items (gs ! i1)) \<Longrightarrow>
     foldl (interactGroup_particle i1 i2 f m dt w h damp) gs [0..<n] =
       gs[i1 := (gs ! i1)\<lparr>items :=
            map (sweep f m dt w h damp (particleRadius (gs ! i1)) (items (gs ! i2)))
              (take n (items (gs ! i1))) @ drop n (items (gs ! i1))\<rparr>]"
proof (induction n)
  case 0
  then show ?case using lt by simp
next
  case (Suc n)
  let ?S = "sweep f m dt w h damp (particleRadius (gs ! i1)) (items (gs ! i2))"
  let ?ps = "items (gs ! i1)"
  let ?s = "gs[i1 := (gs ! i1)\<lparr>items := map ?S (take n ?ps) @ drop n ?ps\<rparr>]"
  from Suc.prems have n: "n < length ?ps" by simp
  then have ih: "foldl (interactGroup_particle i1 i2 f m dt w h damp) gs [0..<n] = ?s"
    using Suc.IH by simp
  have s1: "?s ! i1 = (gs ! i1)\<lparr>items := map ?S (take n ?ps) @ drop n ?ps\<rparr>"
    using lt by simp
  have s2: "?s ! i2 = gs ! i2" using ne by simp
  have "interactGroup_particle i1 i2 f m dt w h damp ?s n =
      gs[i1 := (gs ! i1)\<lparr>items := map ?S (take (Suc n) ?ps) @ drop (Suc n) ?ps\<rparr>]"
    using swept_prefix_step [OF n, of ?S]
    by (simp add: interactGroup_particle_distinct [OF ne] s1 s2)
  then show ?case using ih by simp
qed

lemma interactGroup_distinct:
  assumes "i1 \<noteq> i2" and "i1 < length gs"
  shows "interactGroup i1 i2 f m dt w h damp gs =
     gs[i1 := (gs ! i1)\<lparr>items :=
          map (sweep f m dt w h damp (particleRadius (gs ! i1)) (items (gs ! i2)))
            (items (gs ! i1))\<rparr>]"
  using interactGroup_prefix [OF assms, of "length (items (gs ! i1))" f m dt w h damp]
  by (simp add: interactGroup_def)

subsection \<open>One call on a group and itself\<close>

lemma interactParticle_position:
  "x (interactParticle a b f m r) = x a \<and> y (interactParticle a b f m r) = y a"
  by (simp add: interactParticle_def Let_def)

lemma interactParticle_source_position:
  "x b = x b' \<Longrightarrow> y b = y b' \<Longrightarrow> interactParticle a b f m r = interactParticle a b' f m r"
  by (simp add: interactParticle_def)

lemma foldl_alias:
  "(c \<longrightarrow> x (bs ! k) = x a1 \<and> y (bs ! k) = y a1) \<Longrightarrow>
   foldl (\<lambda>a j. interactParticle a (if c \<and> j = k then a else bs ! j) f m r) a1 js =
   foldl (\<lambda>a j. interactParticle a (bs ! j) f m r) a1 js"
proof (induction js arbitrary: a1)
  case Nil
  then show ?case by simp
next
  case (Cons j js)
  have same: "interactParticle a1 (if c \<and> j = k then a1 else bs ! j) f m r =
      interactParticle a1 (bs ! j) f m r"
  proof (cases "c \<and> j = k")
    case True
    with Cons.prems have "x a1 = x (bs ! j)" "y a1 = y (bs ! j)" by simp_all
    then have "interactParticle a1 a1 f m r = interactParticle a1 (bs ! j) f m r"
      by (rule interactParticle_source_position)
    with True show ?thesis by simp
  next
    case False
    then show ?thesis by auto
  qed
  have keep: "c \<longrightarrow> x (bs ! k) = x (interactParticle a1 (bs ! j) f m r) \<and>
      y (bs ! k) = y (interactParticle a1 (bs ! j) f m r)"
    using Cons.prems by (simp add: interactParticle_position)
  from Cons.IH [OF keep] same show ?case by simp
qed

lemma interactGroup_particle_sweep:
  "interactGroup_particle i1 i2 f m dt w h damp s k =
     s[i1 := (s ! i1)\<lparr>items := (items (s ! i1))
         [k := sweep f m dt w h damp (particleRadius (s ! i1)) (items (s ! i2)) (items (s ! i1) ! k)]\<rparr>]"
proof -
  let ?a1 = "(items (s ! i1) ! k)\<lparr>ax := Fin 0, ay := Fin 0\<rparr>"
  let ?r = "particleRadius (s ! i1)"
  have al: "i1 = i2 \<longrightarrow> x (items (s ! i2) ! k) = x ?a1 \<and> y (items (s ! i2) ! k) = y ?a1"
    by simp
  have "foldl (\<lambda>a j. interactParticle a (if i1 = i2 \<and> j = k then a else items (s ! i2) ! j) f m ?r)
          ?a1 [0..<length (items (s ! i2))] =
        foldl (\<lambda>a j. interactParticle a (items (s ! i2) ! j) f m ?r) ?a1 [0..<length (items (s ! i2))]"
    by (rule foldl_alias [OF al])
  also have "\<dots> = foldl (\<lambda>a b. interactParticle a b f m ?r) ?a1 (items (s ! i2))"
    by (rule foldl_nth_upt)
  finally show ?thesis
    by (simp add: interactGroup_particle_def sweep_def Let_def)
qed

lemma interactGroup_self_suffix:
  "i < length s \<Longrightarrow> items (s ! i) = swept @ todo \<Longrightarrow>
   foldl (interactGroup_particle i i f m dt w h damp) s [length swept..<length swept + length todo] =
     s[i := (s ! i)\<lparr>items :=
          self_sweeps f m dt w h damp (particleRadius (s ! i)) swept todo\<rparr>]"
proof (induction todo arbitrary: swept s)
  case Nil
  then have "(s ! i)\<lparr>items := swept\<rparr> = s ! i" by auto
  then show ?case by simp
next
  case (Cons a rest)
  let ?k = "length swept"
  let ?sw = "sweep f m dt w h damp (particleRadius (s ! i)) (swept @ a # rest) a"
  let ?s' = "s[i := (s ! i)\<lparr>items := (swept @ [?sw]) @ rest\<rparr>]"
  have body: "interactGroup_particle i i f m dt w h damp s ?k = ?s'"
    using Cons.prems by (simp add: interactGroup_particle_sweep)
  have l: "i < length ?s'" using Cons.prems by simp
  have it: "items (?s' ! i) = (swept @ [?sw]) @ rest" using Cons.prems by simp
  have r: "particleRadius (?s' ! i) = particleRadius (s ! i)" using Cons.prems by simp
  have "?k < ?k + length (a # rest)" by simp
  then have "[?k..<?k + length (a # rest)] = ?k # [Suc ?k..<?k + length (a # rest)]"
    by (rule upt_conv_Cons)
  moreover have "?k + length (a # rest) = Suc ?k + length rest" by simp
  ultimately have up: "[?k..<?k + length (a # rest)] = ?k # [Suc ?k..<Suc ?k + length rest]"
    by (simp only:)
  have "foldl (interactGroup_particle i i f m dt w h damp) ?s'
          [length (swept @ [?sw])..<length (swept @ [?sw]) + length rest] =
        ?s'[i := (?s' ! i)\<lparr>items :=
          self_sweeps f m dt w h damp (particleRadius (?s' ! i)) (swept @ [?sw]) rest\<rparr>]"
    by (rule Cons.IH [OF l it])
  then have "foldl (interactGroup_particle i i f m dt w h damp) ?s' [Suc ?k..<Suc ?k + length rest] =
        s[i := (s ! i)\<lparr>items :=
          self_sweeps f m dt w h damp (particleRadius (s ! i)) (swept @ [?sw]) rest\<rparr>]"
    using Cons.prems(1) by (simp add: r)
  then show ?case
    by (simp only: up foldl_Cons body self_sweeps.simps)
qed

lemma interactGroup_self:
  assumes "i < length gs"
  shows "interactGroup i i f m dt w h damp gs =
     gs[i := (gs ! i)\<lparr>items :=
          self_sweeps f m dt w h damp (particleRadius (gs ! i)) [] (items (gs ! i))\<rparr>]"
  using interactGroup_self_suffix [OF assms, of "[]" "items (gs ! i)" f m dt w h damp]
  by (simp add: interactGroup_def)

lemma step_calls_in_range:
  "p \<in> set (step_calls gs) \<Longrightarrow> fst p < length gs \<and> snd p < length gs"
  by (auto simp add: step_calls_def split: if_splits)

subsection \<open>Zero forces and coinciding positions\<close>

lemma minus_Fin_zero: "v - Fin 0 = v"
  by (cases v) simp_all

lemma interactParticle_same_position:
  assumes "x a = Fin p" "y a = Fin q" "x b = Fin p" "y b = Fin q"
  shows "interactParticle a b (Fin c) m r = a"
proof -
  from assms have dx: "x a - x b = Fin 0" "y a - y b = Fin 0" by simp_all
  have "distance_of a b = Fin (sqrt (1 / 2 ^ 52) + 1 / 2 ^ 52)"
    by (simp add: distance_of_def dx EPSILON_def)
  then obtain d where d: "distance_of a b = Fin d" by blast
  then have "0 < d" by (rule distance_pos)
  then have "(Fin (- 6) / Fin d) * Fin 0 = Fin 0" "(Fin c / Fin d) * Fin 0 = Fin 0"
    by simp_all
  then show ?thesis
    by (simp add: interactParticle_alt d dx minus_Fin_zero)
qed

lemma interactParticle_zero_force:
  assumes "\<not> distance_of a b < r"
  shows "interactParticle a b (Fin 0) m r = a"
proof (cases "distance_of a b < m")
  case False
  with assms show ?thesis by (simp add: interactParticle_alt)
next
  case True
  then obtain d where d: "distance_of a b = Fin d"
    by (cases "distance_of a b") auto
  then have pos: "0 < d" by (rule distance_pos)
  from distance_of_cases [of a b] d obtain p q where
    pq: "x a - x b = Fin p" "y a - y b = Fin q" by auto
  from pos have "(Fin 0 / Fin d) * Fin p = Fin 0" "(Fin 0 / Fin d) * Fin q = Fin 0"
    by simp_all
  then show ?thesis
    using assms True by (simp add: interactParticle_alt d pq minus_Fin_zero)
qed

lemma step_calls_empty:
  assumes "\<forall>i<length gs. isRunning (gs ! i) \<longrightarrow> (\<forall>j<length gs. jsget (forces (gs ! i)) j = Fin 0)"
  shows "step_calls gs = []"
proof -
  have "filter (\<lambda>j. jsget (forces (gs ! i)) j \<noteq> Fin 0) [0..<length gs] = []"
    if "i < length gs" "isRunning (gs ! i)" for i
    using assms that by (auto simp add: filter_empty_conv)
  then show ?thesis by (auto simp add: step_calls_def)
qed

subsection \<open>The concrete frames\<close>

lemma frame_calls: "step_calls frame_gs = [(0, 1), (0, 2)]"
  by (simp add: step_calls_def frame_gs_def mk_group_def jsget_def numeral_2_eq_2)

lemma frame_step: "step (mk_registry frame_gs) (Fin 100) (Fin 100) frame_gs (Fin (1 / 100)) = frame_moved 12"
proof -
  have c1: "step_call (mk_registry frame_gs) (Fin 100) (Fin 100) (Fin (1 / 100)) frame_gs
              frame_gs (0, Suc 0) = frame_moved 11"
    by (simp add: step_call_def interactGroup_distinct sweep_def constraint_def frame_moved_def
        frame_gs_def mk_group_def mk_registry_def mover_def jsget_def Let_def)
  have c2: "step_call (mk_registry frame_gs) (Fin 100) (Fin 100) (Fin (1 / 100)) frame_gs
              (frame_moved 11) (0, 2) = frame_moved 12"
    by (simp add: step_call_def interactGroup_distinct sweep_def constraint_def frame_moved_def
        frame_gs_def mk_group_def mk_registry_def mover_def jsget_def Let_def)
  show ?thesis
    by (simp add: step_calls_fold frame_calls c1 c2)
qed

lemma frame_once_particle:
  "once_particle (mk_registry frame_gs) (Fin 100) (Fin 100) (Fin (1 / 100)) 3 0 frame_gs 0 =
     frame_moved 11"
proof -
  have f: "forces (frame_gs ! 0) = [Fin 0, Fin 1, Fin 1]" "ranges (frame_gs ! 0) = [Fin 50, Fin 50, Fin 50]"
    "particleRadius (frame_gs ! 0) = Fin 5" "items (frame_gs ! 0) = [mover]"
    "items (frame_gs ! Suc 0) = []" "items (frame_gs ! 2) = []"
    by (simp_all add: frame_gs_def mk_group_def)
  have d: "dampening (mk_registry frame_gs) = Fin 1" by (simp add: mk_registry_def)
  have c: "constraint \<lparr>x = Fin 11, y = Fin 10, vx = Fin 1, vy = Fin 0, ax = Fin 0, ay = Fin 0\<rparr>
             (Fin 5) (Fin 100) (Fin 100) =
           \<lparr>x = Fin 11, y = Fin 10, vx = Fin 1, vy = Fin 0, ax = Fin 0, ay = Fin 0\<rparr>"
    by (simp add: constraint_def)
  show ?thesis
    by (simp add: once_particle_def f d upt_3 jsget_def c mover_def Let_def)
      (simp add: frame_gs_def frame_moved_def mk_group_def mover_def)
qed

lemma frame_step_once:
  "step_once (mk_registry frame_gs) (Fin 100) (Fin 100) frame_gs (Fin (1 / 100)) = frame_moved 11"
proof -
  have l: "length frame_gs = 3" by (simp add: frame_gs_def)
  have r: "isRunning (frame_gs ! 0)" "length (items (frame_gs ! 0)) = 1"
    by (simp_all add: frame_gs_def mk_group_def)
  have e: "items (frame_moved 11 ! Suc 0) = []" "items (frame_moved 11 ! 2) = []"
    by (simp_all add: frame_moved_def mk_group_def)
  show ?thesis
    by (simp add: step_once_def l upt_3 r e frame_once_particle)
qed

lemma still_noskip:
  "step_noskip (mk_registry still_gs) (Fin 100) (Fin 100) still_gs (Fin (1 / 100)) = still_moved"
proof -
  have k: "interactParticle (mover\<lparr>ax := Fin 0, ay := Fin 0\<rparr>) (mover\<lparr>ax := Fin 0, ay := Fin 0\<rparr>)
             (Fin 0) (Fin 50) (Fin 5) = mover\<lparr>ax := Fin 0, ay := Fin 0\<rparr>"
    by (rule interactParticle_same_position [where p = 10 and q = 10]) (simp_all add: mover_def)
  have f: "particleRadius (still_gs ! 0) = Fin 5" "items (still_gs ! 0) = [mover]"
    "forces (still_gs ! 0) = [Fin 0]" "ranges (still_gs ! 0) = [Fin 50]" "isRunning (still_gs ! 0)"
    "length still_gs = 1"
    by (simp_all add: still_gs_def mk_group_def)
  have c: "constraint \<lparr>x = Fin 11, y = Fin 10, vx = Fin 1, vy = Fin 0, ax = Fin 0, ay = Fin 0\<rparr>
             (Fin 5) (Fin 100) (Fin 100) =
           \<lparr>x = Fin 11, y = Fin 10, vx = Fin 1, vy = Fin 0, ax = Fin 0, ay = Fin 0\<rparr>"
    by (simp add: constraint_def)
  have p: "interactGroup_particle 0 0 (Fin 0) (Fin 50) (Fin (1 / 100)) (Fin 100) (Fin 100) (Fin 1)
             still_gs 0 = still_moved"
    by (simp add: interactGroup_particle_def f k Let_def)
      (simp add: mover_def c still_gs_def still_moved_def mk_group_def)
  show ?thesis
    by (simp add: step_noskip_def step_noskip_target_def f interactGroup_def jsget_def
        mk_registry_def p)
qed

subsection \<open>Reset and integration, once per call\<close>

lemma distance_of_acceleration:
  "distance_of (a\<lparr>ax := u, ay := v\<rparr>) b = distance_of a b"
  by (simp add: distance_of_def)

lemma constraint_inside:
  "1 \<le> p \<Longrightarrow> p \<le> 99 \<Longrightarrow> 1 \<le> q \<Longrightarrow> q \<le> 99 \<Longrightarrow>
   constraint \<lparr>x = Fin p, y = Fin q, vx = u, vy = v, ax = c, ay = e\<rparr> (Fin 1) (Fin 100) (Fin 100) =
     \<lparr>x = Fin p, y = Fin q, vx = u, vy = v, ax = c, ay = e\<rparr>"
  by (simp add: constraint_def)

lemma duo_sweep:
  assumes d: "distance_of pair_a pair_b = Fin d" "5 < d" "d < 7"
  shows "sweep (Fin 1) (Fin 10) (Fin 1) (Fin 100) (Fin 100) (Fin 1) (Fin 1) [pair_b, pair_b] pair_a =
     \<lparr>x = Fin (3 - 6 / d), y = Fin (4 - 8 / d), vx = Fin (- (6 / d)), vy = Fin (- (8 / d)),
      ax = Fin (- (6 / d)), ay = Fin (- (8 / d))\<rparr>"
proof -
  have pos: "0 < d" using d by simp
  have r: "pair_a\<lparr>ax := Fin 0, ay := Fin 0\<rparr> = pair_a" by (simp add: pair_a_def)
  have k1: "interactParticle pair_a pair_b (Fin 1) (Fin 10) (Fin 1) =
      pair_a\<lparr>ax := Fin (- (3 / d)), ay := Fin (- (4 / d))\<rparr>"
    using d pos by (simp add: interactParticle_alt pair_fields)
  have k2: "interactParticle (pair_a\<lparr>ax := Fin (- (3 / d)), ay := Fin (- (4 / d))\<rparr>) pair_b
              (Fin 1) (Fin 10) (Fin 1) =
      pair_a\<lparr>ax := Fin (- (6 / d)), ay := Fin (- (8 / d))\<rparr>"
    using d pos pair_fields
    by (simp add: interactParticle_alt distance_of_acceleration)
  have b: "6 / d < 2" "8 / d < 2" "0 < 6 / d" "0 < 8 / d"
    using d pos by (simp_all add: pos_divide_less_eq)
  have i: "1 \<le> 3 - 6 / d" "3 - 6 / d \<le> 99" "1 \<le> 4 - 8 / d" "4 - 8 / d \<le> 99"
    using b by linarith+
  have c: "constraint \<lparr>x = Fin (3 - 6 / d), y = Fin (4 - 8 / d), vx = Fin (- (6 / d)),
                       vy = Fin (- (8 / d)), ax = Fin (- (6 / d)), ay = Fin (- (8 / d))\<rparr>
             (Fin 1) (Fin 100) (Fin 100) =
           \<lparr>x = Fin (3 - 6 / d), y = Fin (4 - 8 / d), vx = Fin (- (6 / d)), vy = Fin (- (8 / d)),
            ax = Fin (- (6 / d)), ay = Fin (- (8 / d))\<rparr>"
    by (rule constraint_inside [OF i])
  show ?thesis
    by (simp add: sweep_def r k1 k2 Let_def) (simp add: pair_a_def c)
qed

lemma solo_sweep:
  "sweep (Fin 1) (Fin 50) (Fin (1 / 100)) (Fin 100) (Fin 100) (Fin 1) (Fin 5) [mover] mover =
     mover\<lparr>x := Fin 11\<rparr>"
proof -
  have k: "interactParticle (mover\<lparr>ax := Fin 0, ay := Fin 0\<rparr>) mover (Fin 1) (Fin 50) (Fin 5) =
      mover\<lparr>ax := Fin 0, ay := Fin 0\<rparr>"
    by (rule interactParticle_same_position [where p = 10 and q = 10]) (simp_all add: mover_def)
  have c: "constraint \<lparr>x = Fin 11, y = Fin 10, vx = Fin 1, vy = Fin 0, ax = Fin 0, ay = Fin 0\<rparr>
             (Fin 5) (Fin 100) (Fin 100) =
           \<lparr>x = Fin 11, y = Fin 10, vx = Fin 1, vy = Fin 0, ax = Fin 0, ay = Fin 0\<rparr>"
    by (simp add: constraint_def)
  show ?thesis
    by (simp add: sweep_def k Let_def) (simp add: mover_def c)
qed

text \<open>
  Claim C2, as amended. One step is the sequence of the calls of \<^verbatim>\<open>interactGroup\<close> for
  the pairs \<open>step_calls\<close> lists: one call for every pair of a running target group and a
  source group whose force entry is not \<open>0\<close>, in the order of the loops, both positions
  within the registry. Every call replaces every particle of its target group by its
  \<open>sweep\<close>: the acceleration is reset, the contributions of the particles of that one
  source group are accumulated, and velocity and position are integrated and
  constrained. When the source is another group its particles are as they were before
  the call; when the source is the target group itself, they are the group's particles
  as they are at that moment, the earlier ones already moved. So the reset-then-integrate
  pattern occurs once per target particle for every such pair, not once per frame, and an
  acceleration holds the contributions of one source group when it is used.
\<close>

theorem step_integrates_per_call:
  "step pg w h gs dt = foldl (step_call pg w h dt gs) gs (step_calls gs)
   \<and> (p \<in> set (step_calls gs) \<longrightarrow> fst p < length gs \<and> snd p < length gs)
   \<and> (i \<noteq> j \<and> i < length gs \<and> j < length gs \<longrightarrow>
        interactGroup i j f m dt w h damp gs =
          gs[i := (gs ! i)\<lparr>items :=
               map (sweep f m dt w h damp (particleRadius (gs ! i)) (items (gs ! j)))
                 (items (gs ! i))\<rparr>])
   \<and> (i < length gs \<longrightarrow>
        interactGroup i i f m dt w h damp gs =
          gs[i := (gs ! i)\<lparr>items :=
               self_sweeps f m dt w h damp (particleRadius (gs ! i)) [] (items (gs ! i))\<rparr>])"
  using step_calls_fold [of pg w h gs dt] interactGroup_distinct [of i j gs f m dt w h damp]
    interactGroup_self [of i gs f m dt w h damp] step_calls_in_range [of p gs]
  by blast

text \<open>
  The theorem at \<open>duo_gs\<close> and \<open>solo_gs\<close>. In \<open>duo_gs\<close> the call for the pair
  \<open>(0, 1)\<close> with force 1 accumulates the pull of both source particles, \<open>(-6 / d, -8 / d)\<close>,
  and moves \<open>pair_a\<close> by it toward them. In \<open>solo_gs\<close> the only call of the step is
  the one of the group on itself; the particle adds nothing to its own acceleration and
  is moved by its velocity from \<open>x = 10\<close> to \<open>x = 11\<close>.
\<close>

theorem step_integrates_per_call_witness:
  "(0::nat) \<noteq> 1 \<and> 0 < length duo_gs \<and> 1 < length duo_gs \<and>
   (\<exists>d. distance_of pair_a pair_b = Fin d \<and> 5 < d \<and> d < 7 \<and>
      interactGroup 0 1 (Fin 1) (Fin 10) (Fin 1) (Fin 100) (Fin 100) (Fin 1) duo_gs = duo_after d) \<and>
   0 < length solo_gs \<and> step_calls solo_gs = [(0, 0)] \<and>
   interactGroup 0 0 (Fin 1) (Fin 50) (Fin (1 / 100)) (Fin 100) (Fin 100) (Fin 1) solo_gs =
     solo_moved \<and>
   step (mk_registry solo_gs) (Fin 100) (Fin 100) solo_gs (Fin (1 / 100)) = solo_moved"
proof -
  have h: "(0::nat) \<noteq> 1 \<and> 0 < length duo_gs \<and> 1 < length duo_gs"
    by (simp add: duo_gs_def)
  have hs: "0 < length solo_gs" by (simp add: solo_gs_def)
  from pair_distance obtain d where d: "distance_of pair_a pair_b = Fin d" "5 < d" "d < 7"
    by blast
  have fd: "particleRadius (duo_gs ! 0) = Fin 1" "items (duo_gs ! 0) = [pair_a]"
    "items (duo_gs ! 1) = [pair_b, pair_b]"
    by (simp_all add: duo_gs_def mk_group_def)
  have fs: "particleRadius (solo_gs ! 0) = Fin 5" "items (solo_gs ! 0) = [mover]"
    by (simp_all add: solo_gs_def mk_group_def)
  have calls: "step_calls solo_gs = [(0, 0)]"
    by (simp add: step_calls_def solo_gs_def mk_group_def jsget_def)
  from step_integrates_per_call [of "mk_registry duo_gs" "Fin 100" "Fin 100" duo_gs "Fin 1"
      "(0, 1)" 0 1 "Fin 1" "Fin 10" "Fin 1"] h
  have "interactGroup 0 1 (Fin 1) (Fin 10) (Fin 1) (Fin 100) (Fin 100) (Fin 1) duo_gs =
          duo_gs[0 := (duo_gs ! 0)\<lparr>items :=
               map (sweep (Fin 1) (Fin 10) (Fin 1) (Fin 100) (Fin 100) (Fin 1)
                      (particleRadius (duo_gs ! 0)) (items (duo_gs ! 1)))
                 (items (duo_gs ! 0))\<rparr>]"
    by blast
  then have duo: "interactGroup 0 1 (Fin 1) (Fin 10) (Fin 1) (Fin 100) (Fin 100) (Fin 1) duo_gs =
      duo_after d"
    by (simp only: fd list.map duo_sweep [OF d])
      (simp add: duo_gs_def duo_after_def mk_group_def)
  from step_integrates_per_call [of "mk_registry solo_gs" "Fin 100" "Fin 100" solo_gs "Fin (1 / 100)"
      "(0, 0)" 0 0 "Fin 1" "Fin 50" "Fin 1"] hs
  have st: "step (mk_registry solo_gs) (Fin 100) (Fin 100) solo_gs (Fin (1 / 100)) =
      foldl (step_call (mk_registry solo_gs) (Fin 100) (Fin 100) (Fin (1 / 100)) solo_gs) solo_gs
        (step_calls solo_gs)"
    and "interactGroup 0 0 (Fin 1) (Fin 50) (Fin (1 / 100)) (Fin 100) (Fin 100) (Fin 1) solo_gs =
          solo_gs[0 := (solo_gs ! 0)\<lparr>items :=
               self_sweeps (Fin 1) (Fin 50) (Fin (1 / 100)) (Fin 100) (Fin 100) (Fin 1)
                 (particleRadius (solo_gs ! 0)) [] (items (solo_gs ! 0))\<rparr>]"
    by blast+
  then have solo: "interactGroup 0 0 (Fin 1) (Fin 50) (Fin (1 / 100)) (Fin 100) (Fin 100) (Fin 1)
      solo_gs = solo_moved"
    by (simp only: fs self_sweeps.simps append_Nil solo_sweep)
      (simp add: solo_gs_def solo_moved_def mk_group_def)
  have "step_call (mk_registry solo_gs) (Fin 100) (Fin 100) (Fin (1 / 100)) solo_gs solo_gs (0, 0) =
      interactGroup 0 0 (Fin 1) (Fin 50) (Fin (1 / 100)) (Fin 100) (Fin 100) (Fin 1) solo_gs"
    by (simp add: step_call_def solo_gs_def mk_group_def mk_registry_def jsget_def)
  with st calls solo
  have "step (mk_registry solo_gs) (Fin 100) (Fin 100) solo_gs (Fin (1 / 100)) = solo_moved"
    by simp
  with h hs d duo calls solo show ?thesis by blast
qed

text \<open>
  Claim C2 as it is stated fails at \<open>frame_gs\<close>: the first group has two source groups
  with a non-zero force entry, so its particle is reset and integrated twice in one
  step and ends at \<open>x = 12\<close>; reset once and integrated once, as \<open>step_once\<close> does, it
  ends at \<open>x = 11\<close>.
\<close>

theorem step_integrates_twice_counterexample:
  "step_calls frame_gs = [(0, 1), (0, 2)] \<and>
   step (mk_registry frame_gs) (Fin 100) (Fin 100) frame_gs (Fin (1 / 100)) = frame_moved 12 \<and>
   step_once (mk_registry frame_gs) (Fin 100) (Fin 100) frame_gs (Fin (1 / 100)) = frame_moved 11 \<and>
   step (mk_registry frame_gs) (Fin 100) (Fin 100) frame_gs (Fin (1 / 100)) \<noteq>
     step_once (mk_registry frame_gs) (Fin 100) (Fin 100) frame_gs (Fin (1 / 100))"
proof -
  have "frame_moved 12 \<noteq> frame_moved 11"
    by (simp add: frame_moved_def mk_group_def mover_def)
  then show ?thesis by (simp add: frame_calls frame_step frame_step_once)
qed

subsection \<open>Pairs with force zero\<close>

text \<open>
  Claim C3, as amended. The step skips a pair whose force entry is \<open>0\<close>: the body of its
  inner loop returns the groups as they are, and a step in which every force entry of
  every running group is \<open>0\<close> returns the groups unchanged. In the kernel a force \<open>0\<close>
  contributes nothing: when the computed distance is not below \<open>particleRadius\<close>, the
  kernel with \<open>f = 0\<close> leaves \<open>a\<close> as it is. Skipping is not the same as running the
  group interaction with \<open>f = 0\<close>, which resets the acceleration, repels within
  \<open>particleRadius\<close>, dampens the velocity and moves the particle.
\<close>

theorem zero_force_pair_skipped:
  "(jsget (forces (gs ! i)) j = Fin 0 \<longrightarrow> step_pair pg w h dt i gs j = gs)
   \<and> ((\<forall>i<length gs. isRunning (gs ! i) \<longrightarrow> (\<forall>j<length gs. jsget (forces (gs ! i)) j = Fin 0)) \<longrightarrow>
        step pg w h gs dt = gs)
   \<and> (\<not> distance_of a b < r \<longrightarrow> interactParticle a b (Fin 0) m r = a)"
proof -
  have "step pg w h gs dt = gs"
    if "\<forall>i<length gs. isRunning (gs ! i) \<longrightarrow> (\<forall>j<length gs. jsget (forces (gs ! i)) j = Fin 0)"
    using step_calls_empty [OF that] by (simp add: step_calls_fold)
  then show ?thesis
    using interactParticle_zero_force [of a b r m] by (simp add: step_pair_def)
qed

text \<open>
  The theorem at \<open>still_gs\<close>, whose only force entry is \<open>0\<close>, and at the pair
  \<open>pair_a\<close>, \<open>pair_b\<close> with radius 2.
\<close>

theorem zero_force_pair_skipped_witness:
  "jsget (forces (still_gs ! 0)) 0 = Fin 0 \<and>
   step_pair (mk_registry still_gs) (Fin 100) (Fin 100) (Fin (1 / 100)) 0 still_gs 0 = still_gs \<and>
   step (mk_registry still_gs) (Fin 100) (Fin 100) still_gs (Fin (1 / 100)) = still_gs \<and>
   \<not> distance_of pair_a pair_b < Fin 2 \<and>
   interactParticle pair_a pair_b (Fin 0) (Fin 10) (Fin 2) = pair_a"
proof -
  have z: "jsget (forces (still_gs ! 0)) 0 = Fin 0"
    by (simp add: still_gs_def mk_group_def jsget_def)
  have l: "length still_gs = 1" by (simp add: still_gs_def)
  have all: "\<forall>i<length still_gs. isRunning (still_gs ! i) \<longrightarrow>
      (\<forall>j<length still_gs. jsget (forces (still_gs ! i)) j = Fin 0)"
    using z by (simp add: l)
  from pair_distance have d: "\<not> distance_of pair_a pair_b < Fin 2" by auto
  from zero_force_pair_skipped [of still_gs 0 0 "mk_registry still_gs" "Fin 100" "Fin 100"
      "Fin (1 / 100)" pair_a pair_b "Fin 2" "Fin 10"] z all d
  show ?thesis by blast
qed

text \<open>
  Claim C3 as it is stated fails at \<open>still_gs\<close>: the step skips the only pair and the
  particle stays at \<open>x = 10\<close>; the variant that runs the group interaction with
  \<open>f = 0\<close> moves it by its velocity to \<open>x = 11\<close>.
\<close>

theorem zero_force_skip_counterexample:
  "jsget (forces (still_gs ! 0)) 0 = Fin 0 \<and>
   step (mk_registry still_gs) (Fin 100) (Fin 100) still_gs (Fin (1 / 100)) = still_gs \<and>
   step_noskip (mk_registry still_gs) (Fin 100) (Fin 100) still_gs (Fin (1 / 100)) = still_moved \<and>
   step (mk_registry still_gs) (Fin 100) (Fin 100) still_gs (Fin (1 / 100)) \<noteq>
     step_noskip (mk_registry still_gs) (Fin 100) (Fin 100) still_gs (Fin (1 / 100))"
proof -
  have "still_gs \<noteq> still_moved"
    by (simp add: still_gs_def still_moved_def mk_group_def mover_def)
  moreover have "step (mk_registry still_gs) (Fin 100) (Fin 100) still_gs (Fin (1 / 100)) = still_gs"
    by (simp add: step_def step_target_def step_pair_def still_gs_def mk_group_def jsget_def)
  moreover have "jsget (forces (still_gs ! 0)) 0 = Fin 0"
    by (simp add: still_gs_def mk_group_def jsget_def)
  ultimately show ?thesis by (simp add: still_noskip)
qed

subsection \<open>The number of computations of a concrete registry\<close>

text \<open>
  The theorem of claim C10 at \<open>crowd\<close>: the pairs \<open>(0, 1)\<close>, \<open>(1, 0)\<close> and \<open>(1, 1)\<close>
  count \<open>2 * 3 + 3 * 2 + 3 * 3 = 21\<close> computations.
\<close>

theorem computationsPerFrame_sum_witness: "computationsPerFrame crowd = 21"
proof -
  have g: "groups crowd ! 0 =
      mk_group [mover, mover] (Fin 2) [Fin 0, Fin 1] [Fin 50, Fin 50] (Fin 5)"
    "groups crowd ! Suc 0 =
      mk_group [mover, mover, mover] (Fin 3) [Fin 1, Fin 1] [Fin 50, Fin 50] (Fin 5)"
    "length (groups crowd) = Suc (Suc 0)"
    by (simp_all add: crowd_def mk_registry_def)
  from computationsPerFrame_sum [of crowd] show ?thesis
    by (simp add: g mk_group_def jsget_def)
qed

end
